theory Spec2Isabelle
  imports Complex_Main
begin

section \<open>Errors\<close>

text \<open>
  Every exception of the Python code is a value. \<open>KeyError\<close> carries the label
  that was not found; \<open>External\<close> stands for whatever the data provider or the
  regression library raises on its own.
\<close>

datatype error = KeyError string | IndexError | ValueError | External string

section \<open>The rolling regressor: \<open>RollingOLS\<close>\<close>

subsection \<open>Series, slices and the result table\<close>

text \<open>
  A series is the ordered sequence of its (timestamp, value) pairs. Values are
  idealised as real numbers: rounding of the floating-point solver is outside the
  model. Slicing a series with integers is positional and follows Python: a
  negative bound counts from the end, a bound outside the series is clipped.
\<close>

type_synonym 'i series = "('i \<times> real) list"

definition clip_index :: "int \<Rightarrow> nat \<Rightarrow> nat" where
  "clip_index k n = (if k < 0 then nat (max 0 (int n + k)) else min (nat k) n)"

definition slice :: "int \<Rightarrow> int \<Rightarrow> 'a list \<Rightarrow> 'a list" where
  "slice a b xs =
     (let lo = clip_index a (length xs); hi = clip_index b (length xs)
      in take (hi - lo) (drop lo xs))"

definition slice_from :: "int \<Rightarrow> 'a list \<Rightarrow> 'a list" where
  "slice_from a xs = drop (clip_index a (length xs)) xs"

text \<open>
  The result table has the two columns \<open>('x', 'intercept')\<close>, in this order. A cell
  that was never assigned is NaN, written \<open>None\<close>.
\<close>

record coef_row =
  x_field :: "real option"
  intercept_field :: "real option"

record 'i coef_frame =
  rindex :: "'i list"
  rrows :: "coef_row list"

definition nan_row :: coef_row where
  "nan_row = \<lparr>x_field = None, intercept_field = None\<rparr>"

definition new_frame :: "'i list \<Rightarrow> 'i coef_frame" where
  "new_frame idx = \<lparr>rindex = idx, rrows = replicate (length idx) nan_row\<rparr>"

text \<open>
  \<open>result.iloc[i] = list(params)\<close>: the position is checked first; the list is
  then written into the row position by position, first element into column
  \<open>'x'\<close>, second into column \<open>'intercept'\<close>. A list of one element is broadcast
  over the row by the underlying array assignment; any other length does not
  fit the two columns.
\<close>

definition iloc_set :: "'i coef_frame \<Rightarrow> nat \<Rightarrow> real list \<Rightarrow> error + 'i coef_frame" where
  "iloc_set result i params =
     (if length (rrows result) \<le> i then Inl IndexError
      else case params of
        [a, b] \<Rightarrow> Inr (result\<lparr>rrows := (rrows result)[i := \<lparr>x_field = Some a, intercept_field = Some b\<rparr>]\<rparr>)
      | [a] \<Rightarrow> Inr (result\<lparr>rrows := (rrows result)[i := \<lparr>x_field = Some a, intercept_field = Some a\<rparr>]\<rparr>)
      | _ \<Rightarrow> Inl ValueError)"

subsection \<open>The design matrix\<close>

text \<open>
  \<open>sm.add_constant(x[i_start:i_end])\<close> is called with the library's defaults
  \<open>prepend=True, has_constant='skip'\<close>: a column of ones is put \<^emph>\<open>in front of\<close>
  the regressor column, unless the regressor is itself a non-zero constant, in
  which case nothing is added. A design matrix is the list of its rows, each
  with its timestamp; a row lists its entries in column order.
\<close>

type_synonym 'i design = "('i \<times> real list) list"

definition is_const :: "real list \<Rightarrow> bool" where
  "is_const vs = list_all (\<lambda>v. v = hd vs) vs"

definition is_nonzero_const :: "real list \<Rightarrow> bool" where
  "is_nonzero_const vs = (vs \<noteq> [] \<and> is_const vs \<and> hd vs \<noteq> 0)"

definition add_constant :: "'i series \<Rightarrow> 'i design" where
  "add_constant xs =
     (if is_nonzero_const (map snd xs) then map (\<lambda>(t, v). (t, [v])) xs
      else map (\<lambda>(t, v). (t, [1, v])) xs)"

subsection \<open>The loop\<close>

text \<open>
  The least-squares solver \<open>sm.OLS(y_new, x_new).fit().params\<close> belongs to an
  external library and is a parameter: it receives the response window and the
  design matrix and returns one coefficient per column of the design matrix, in
  column order, or raises.
\<close>

type_synonym 'i solver = "'i series \<Rightarrow> 'i design \<Rightarrow> error + real list"

definition fit_window :: "'i solver \<Rightarrow> 'i series \<Rightarrow> 'i series \<Rightarrow> int \<Rightarrow> nat \<Rightarrow> error + real list" where
  "fit_window fit y x window i_start =
     (let i_end = int i_start + window;
          x_new = add_constant (slice (int i_start) i_end x);
          y_new = slice (int i_start) i_end y
      in fit y_new x_new)"

fun rolling_loop ::
  "'i solver \<Rightarrow> 'i series \<Rightarrow> 'i series \<Rightarrow> int \<Rightarrow> nat list \<Rightarrow> 'i coef_frame \<Rightarrow> error + 'i coef_frame"
where
  "rolling_loop fit y x window [] result = Inr result"
| "rolling_loop fit y x window (i_start # rest) result =
     (case fit_window fit y x window i_start of
        Inl e \<Rightarrow> Inl e
      | Inr params \<Rightarrow>
          (case iloc_set result i_start params of
             Inl e \<Rightarrow> Inl e
           | Inr result' \<Rightarrow> rolling_loop fit y x window rest result'))"

definition RollingOLS :: "'i solver \<Rightarrow> 'i series \<Rightarrow> 'i series \<Rightarrow> int \<Rightarrow> error + 'i coef_frame" where
  "RollingOLS fit y x window =
     rolling_loop fit y x window [0 ..< nat (int (length y) - window)]
       (new_frame (map fst (slice_from window y)))"

subsection \<open>The call in a store of objects\<close>

text \<open>
  Python hands \<open>y\<close> and \<open>x\<close> to the function by reference, and the table it
  returns is an object too. To state what a call reads and what it changes, the
  objects live in a store: an object is addressed by its position, and a new
  object is put behind the ones that exist. The statements of \<open>RollingOLS\<close>
  act on the store as follows: line 95 reads \<open>y\<close> and creates the result table;
  each round of the loop reads \<open>x\<close> and \<open>y\<close> through their references, and
  \<open>result.iloc[i_start] = ...\<close> changes the result table in place. The slices,
  the design matrix and the fit are new values of one round of the loop that
  nothing refers to afterwards; they are not kept in the store. The solver and
  \<open>sm.add_constant\<close> belong to the regression library and are taken to be
  functions of the values they receive that change no object.

  When the call raises, the store is what it was at that moment. An argument
  that does not refer to a series is outside what the function is written for;
  the model answers it with the error \<open>External ''not a series''\<close> in place of
  whatever pandas raises on it.
\<close>

datatype 'i obj = SeriesObj "'i series" | TableObj "'i coef_frame"

type_synonym 'i store = "'i obj list"

definition load_series :: "'i store \<Rightarrow> nat \<Rightarrow> error + 'i series" where
  "load_series st a =
     (if a < length st then
        (case st ! a of SeriesObj s \<Rightarrow> Inr s | TableObj tb \<Rightarrow> Inl (External ''not a series''))
      else Inl (External ''not a series''))"

definition load_table :: "'i store \<Rightarrow> nat \<Rightarrow> error + 'i coef_frame" where
  "load_table st a =
     (if a < length st then
        (case st ! a of TableObj tb \<Rightarrow> Inr tb | SeriesObj s \<Rightarrow> Inl (External ''not a table''))
      else Inl (External ''not a table''))"

fun rolling_loop_store ::
  "'i solver \<Rightarrow> nat \<Rightarrow> nat \<Rightarrow> int \<Rightarrow> nat \<Rightarrow> nat list \<Rightarrow> 'i store \<Rightarrow> (error + nat) \<times> 'i store"
where
  "rolling_loop_store fit yr xr window r [] st = (Inr r, st)"
| "rolling_loop_store fit yr xr window r (i_start # rest) st =
     (case load_series st xr of
        Inl e \<Rightarrow> (Inl e, st)
      | Inr x \<Rightarrow>
     (case load_series st yr of
        Inl e \<Rightarrow> (Inl e, st)
      | Inr y \<Rightarrow>
     (case fit_window fit y x window i_start of
        Inl e \<Rightarrow> (Inl e, st)
      | Inr params \<Rightarrow>
     (case load_table st r of
        Inl e \<Rightarrow> (Inl e, st)
      | Inr result \<Rightarrow>
     (case iloc_set result i_start params of
        Inl e \<Rightarrow> (Inl e, st)
      | Inr result' \<Rightarrow>
          rolling_loop_store fit yr xr window r rest (st[r := TableObj result']))))))"

text \<open>
  The call with the references \<open>yr\<close> and \<open>xr\<close> in the store \<open>st\<close>: it gives the
  reference of the result table, or the error, and the store after the call.
\<close>

definition RollingOLS_store ::
  "'i solver \<Rightarrow> nat \<Rightarrow> nat \<Rightarrow> int \<Rightarrow> 'i store \<Rightarrow> (error + nat) \<times> 'i store"
where
  "RollingOLS_store fit yr xr window st =
     (case load_series st yr of
        Inl e \<Rightarrow> (Inl e, st)
      | Inr y \<Rightarrow>
          (let r = length st;
               st1 = st @ [TableObj (new_frame (map fst (slice_from window y)))]
           in rolling_loop_store fit yr xr window r [0 ..< nat (int (length y) - window)] st1))"

text \<open>What the caller gets: the object behind the returned reference, or the error.\<close>

definition outcome :: "(error + nat) \<times> 'i store \<Rightarrow> error + 'i obj" where
  "outcome run = (case fst run of Inl e \<Rightarrow> Inl e | Inr r \<Rightarrow> Inr (snd run ! r))"

subsection \<open>Least squares in exact arithmetic\<close>

text \<open>
  What the solver is expected to return is stated by the normal equations: the
  residual of the fit is orthogonal to every column of the design matrix, and
  coefficient \<open>j\<close> multiplies column \<open>j\<close>. In exact arithmetic this is what
  ordinary least squares means.
\<close>

definition dot :: "real list \<Rightarrow> real list \<Rightarrow> real" where
  "dot us vs = (\<Sum>(u, v) \<leftarrow> zip us vs. u * v)"

definition normal_equations :: "'i design \<Rightarrow> 'i series \<Rightarrow> real list \<Rightarrow> bool" where
  "normal_equations X ys params \<longleftrightarrow>
     length X = length ys \<and>
     list_all (\<lambda>(t, row). length row = length params) X \<and>
     list_all (\<lambda>j. (\<Sum>((t, row), (t', v)) \<leftarrow> zip X ys. row ! j * (v - dot params row)) = 0)
       [0 ..< length params]"

text \<open>
  A reference solver, used to run the loop on concrete series: it solves the
  normal equations of a design matrix with one or two columns of full rank.
\<close>

definition exact_solver :: "'i solver" where
  "exact_solver ys X =
     (let rows = map snd X; v = map snd ys in
      if length rows \<noteq> length v \<or> rows = [] then Inl ValueError
      else if list_all (\<lambda>r. length r = 1) rows then
        (let c = map (\<lambda>r. r ! 0) rows; d = dot c c
         in if d = 0 then Inl (External ''singular'') else Inr [dot c v / d])
      else if list_all (\<lambda>r. length r = 2) rows then
        (let c0 = map (\<lambda>r. r ! 0) rows; c1 = map (\<lambda>r. r ! 1) rows;
             g00 = dot c0 c0; g01 = dot c0 c1; g11 = dot c1 c1;
             h0 = dot c0 v; h1 = dot c1 v;
             det = g00 * g11 - g01 * g01
         in if det = 0 then Inl (External ''singular'')
            else Inr [(h0 * g11 - g01 * h1) / det, (g00 * h1 - g01 * h0) / det])
      else Inl ValueError)"

section \<open>The price fetcher: \<open>get_pricing\<close>\<close>

subsection \<open>Tables\<close>

text \<open>
  A table has an index of timestamps and named columns, in order. A column maps
  a timestamp to its cell; a missing cell (NaN) is \<open>None\<close>. Timestamps of an index
  are taken to be unique, so that a cell is addressed by column and timestamp.
  Only the cells at timestamps of the index are part of the table.
\<close>

record ('i, 'v) frame =
  index :: "'i list"
  columns :: "(string \<times> ('i \<rightharpoonup> 'v)) list"

record ('i, 'v) column =
  cindex :: "'i list"
  cvalues :: "'i \<rightharpoonup> 'v"

definition column_names :: "('i, 'v) frame \<Rightarrow> string list" where
  "column_names df = map fst (columns df)"

definition cell :: "('i, 'v) frame \<Rightarrow> string \<Rightarrow> 'i \<Rightarrow> 'v option" where
  "cell df name t = (case map_of (columns df) name of None \<Rightarrow> None | Some c \<Rightarrow> c t)"

definition empty_frame :: "('i, 'v) frame" where
  "empty_frame = \<lparr>index = [], columns = []\<rparr>"

text \<open>\<open>df.rename(columns=mapping)\<close>: labels outside the mapping are kept.\<close>

definition rename :: "(string \<times> string) list \<Rightarrow> ('i, 'v) frame \<Rightarrow> ('i, 'v) frame" where
  "rename mapping df =
     df\<lparr>columns := map (\<lambda>(name, c). (case map_of mapping name of None \<Rightarrow> name | Some name' \<Rightarrow> name', c))
                      (columns df)\<rparr>"

text \<open>\<open>df.drop(labels, axis=1)\<close> raises when a label is not a column; the error
  of the model carries the first such label.\<close>

definition drop_columns :: "string list \<Rightarrow> ('i, 'v) frame \<Rightarrow> error + ('i, 'v) frame" where
  "drop_columns labels df =
     (case filter (\<lambda>l. l \<notin> set (column_names df)) labels of
        l # _ \<Rightarrow> Inl (KeyError l)
      | [] \<Rightarrow> Inr (df\<lparr>columns := filter (\<lambda>(name, c). name \<notin> set labels) (columns df)\<rparr>))"

text \<open>\<open>df[name]\<close> with a single label: the column, or \<open>KeyError\<close>.\<close>

definition getitem :: "('i, 'v) frame \<Rightarrow> string \<Rightarrow> error + ('i, 'v) column" where
  "getitem df name =
     (case map_of (columns df) name of
        None \<Rightarrow> Inl (KeyError name)
      | Some c \<Rightarrow> Inr \<lparr>cindex = index df, cvalues = c\<rparr>)"

text \<open>\<open>df[labels]\<close> with a list of labels: the columns in the order asked for, or
  \<open>KeyError\<close> with the first label that is not a column.\<close>

fun select_columns ::
  "string list \<Rightarrow> (string \<times> ('i \<rightharpoonup> 'v)) list \<Rightarrow> error + (string \<times> ('i \<rightharpoonup> 'v)) list"
where
  "select_columns [] cols = Inr []"
| "select_columns (l # ls) cols =
     (case map_of cols l of
        None \<Rightarrow> Inl (KeyError l)
      | Some c \<Rightarrow>
          (case select_columns ls cols of
             Inl e \<Rightarrow> Inl e
           | Inr r \<Rightarrow> Inr ((l, c) # r)))"

definition select :: "string list \<Rightarrow> ('i, 'v) frame \<Rightarrow> error + ('i, 'v) frame" where
  "select labels df =
     (case select_columns labels (columns df) of
        Inl e \<Rightarrow> Inl e
      | Inr cols \<Rightarrow> Inr (df\<lparr>columns := cols\<rparr>))"

text \<open>
  \<open>df[name] = s\<close>: a table without rows takes over the index of a non-empty
  value (the columns it already has are filled with NaN); the value is aligned
  to the index of the table, a timestamp it does not have becoming NaN; the
  column replaces the one of the same name or is appended.
\<close>

primrec set_column ::
  "string \<Rightarrow> ('i \<rightharpoonup> 'v) \<Rightarrow> (string \<times> ('i \<rightharpoonup> 'v)) list \<Rightarrow> (string \<times> ('i \<rightharpoonup> 'v)) list"
where
  "set_column name c [] = [(name, c)]"
| "set_column name c (p # ps) = (if fst p = name then (name, c) # ps else p # set_column name c ps)"

definition reindex :: "('i, 'v) column \<Rightarrow> 'i list \<Rightarrow> ('i \<rightharpoonup> 'v)" where
  "reindex s idx = (\<lambda>t. if t \<in> set idx \<and> t \<in> set (cindex s) then cvalues s t else None)"

definition setitem :: "('i, 'v) frame \<Rightarrow> string \<Rightarrow> ('i, 'v) column \<Rightarrow> ('i, 'v) frame" where
  "setitem df name s =
     (let df' = (if index df = [] \<and> cindex s \<noteq> []
                 then \<lparr>index = cindex s, columns = map (\<lambda>(n, c). (n, Map.empty)) (columns df)\<rparr>
                 else df)
      in df'\<lparr>columns := set_column name (reindex s (index df')) (columns df')\<rparr>)"

text \<open>\<open>df.dropna()\<close>: a row stays when none of its cells is missing.\<close>

definition dropna :: "('i, 'v) frame \<Rightarrow> ('i, 'v) frame" where
  "dropna df = df\<lparr>index := filter (\<lambda>t. list_all (\<lambda>(name, c). c t \<noteq> None) (columns df)) (index df)\<rparr>"

subsection \<open>Arguments\<close>

text \<open>
  \<open>symbol\<close> is a ticker or a list of tickers, \<open>fields\<close> is absent, a string or a
  list of strings. An empty string and an empty list are false in a condition.
\<close>

datatype symbol = Ticker string | Tickers "string list"

datatype fields = FieldStr string | FieldList "string list"

fun truthy :: "fields \<Rightarrow> bool" where
  "truthy (FieldStr s) = (s \<noteq> [])"
| "truthy (FieldList l) = (l \<noteq> [])"

text \<open>\<open>''.join(fields)\<close>: a string is joined character by character, which gives
  the string back; the names of a list are glued together with nothing between them.\<close>

fun join_fields :: "fields \<Rightarrow> string" where
  "join_fields (FieldStr s) = s"
| "join_fields (FieldList l) = concat l"

text \<open>\<open>s.split(',')\<close>.\<close>

fun split_comma :: "string \<Rightarrow> string list" where
  "split_comma [] = [[]]"
| "split_comma (c # cs) =
     (if c = CHR '','' then [] # split_comma cs
      else (case split_comma cs of
              w # ws \<Rightarrow> (c # w) # ws
            | [] \<Rightarrow> [[c]]))"

subsection \<open>The fetcher\<close>

text \<open>
  The data provider \<open>yf.Ticker(symbol).history(start, end, interval)\<close> is external
  and a parameter: it receives the \<open>symbol\<close> argument as it is, the two dates and
  the interval code, and returns a table or raises. The clock read by
  \<open>datetime.now()\<close> is a parameter as well. A call for one symbol reads it at
  most once, and \<open>get_pricing_single\<close> takes that reading as \<open>now\<close>. A call
  for several symbols does not read the clock itself; each of its recursive
  calls does, so \<open>get_pricing\<close> takes the readings as a function: \<open>now k\<close> is
  the reading in the recursive call for the symbol at position \<open>k\<close> of the list,
  and \<open>now 0\<close> the reading of a call that does not recur.
\<close>

type_synonym ('i, 'v) provider = "symbol \<Rightarrow> string \<Rightarrow> string \<Rightarrow> string \<Rightarrow> error + ('i, 'v) frame"

definition default_end :: "string \<Rightarrow> string option \<Rightarrow> string" where
  "default_end now end_date = (case end_date of None \<Rightarrow> now | Some d \<Rightarrow> if d = [] then now else d)"

definition yahoo_interval :: "string \<Rightarrow> string" where
  "yahoo_interval frequency =
     (if frequency = ''daily'' then ''1d''
      else if frequency = ''minute'' then ''1m''
      else frequency)"

text \<open>The part of \<open>get_pricing\<close> after the download: rename, drop, derive \<open>price\<close>,
  project.\<close>

definition process_data :: "fields option \<Rightarrow> ('i, 'v) frame \<Rightarrow> error + ('i, 'v) frame" where
  "process_data flds df0 =
     (let df1 = rename [(''Open'', ''open_price''), (''High'', ''high''), (''Low'', ''low''),
                        (''Close'', ''close_price''), (''Volume'', ''volume'')] df0
      in case drop_columns [''Dividends'', ''Stock Splits''] df1 of
           Inl e \<Rightarrow> Inl e
         | Inr df2 \<Rightarrow>
             (case getitem df2 ''close_price'' of
                Inl e \<Rightarrow> Inl e
              | Inr close \<Rightarrow>
                  (let df3 = setitem df2 ''price'' close
                   in case flds of
                        None \<Rightarrow> Inr df3
                      | Some f \<Rightarrow>
                          if truthy f then select (split_comma (join_fields f)) df3
                          else Inr df3)))"

text \<open>The path of \<open>get_pricing\<close> below the test for several symbols.\<close>

definition get_pricing_single ::
  "('i, 'v) provider \<Rightarrow> string \<Rightarrow> symbol \<Rightarrow> string \<Rightarrow> string option \<Rightarrow> string \<Rightarrow> fields option
     \<Rightarrow> error + ('i, 'v) frame"
where
  "get_pricing_single provider now symbol start_date end_date frequency flds =
     (case provider symbol start_date (default_end now end_date) (yahoo_interval frequency) of
        Inl e \<Rightarrow> Inl e
      | Inr df \<Rightarrow> process_data flds df)"

text \<open>
  The right-hand side \<open>get_pricing(item, ...)[fields]\<close> of the loop over the
  symbols, as the column that the assignment \<open>prices_df[item] = ...\<close> stores. An
  item is a ticker, so the recursive call takes the single-symbol path. Indexing
  with a string gives a column; indexing with a list gives a table, which the
  assignment accepts when it has exactly one column.
\<close>

definition item_column ::
  "('i, 'v) provider \<Rightarrow> string \<Rightarrow> string \<Rightarrow> string option \<Rightarrow> string \<Rightarrow> fields \<Rightarrow> string
     \<Rightarrow> error + ('i, 'v) column"
where
  "item_column provider now start_date end_date frequency f item =
     (case get_pricing_single provider now (Ticker item) start_date end_date frequency (Some f) of
        Inl e \<Rightarrow> Inl e
      | Inr df \<Rightarrow>
          (case f of
             FieldStr s \<Rightarrow> getitem df s
           | FieldList l \<Rightarrow>
               (case select l df of
                  Inl e \<Rightarrow> Inl e
                | Inr sub \<Rightarrow>
                    (case columns sub of
                       [(name, c)] \<Rightarrow> Inr \<lparr>cindex = index sub, cvalues = c\<rparr>
                     | _ \<Rightarrow> Inl ValueError))))"

fun fan_out ::
  "('i, 'v) provider \<Rightarrow> (nat \<Rightarrow> string) \<Rightarrow> string \<Rightarrow> string option \<Rightarrow> string \<Rightarrow> fields
     \<Rightarrow> string list \<Rightarrow> ('i, 'v) frame \<Rightarrow> error + ('i, 'v) frame"
where
  "fan_out provider now start_date end_date frequency f [] prices_df = Inr prices_df"
| "fan_out provider now start_date end_date frequency f (item # rest) prices_df =
     (case item_column provider (now 0) start_date end_date frequency f item of
        Inl e \<Rightarrow> Inl e
      | Inr s \<Rightarrow>
          fan_out provider (\<lambda>k. now (Suc k)) start_date end_date frequency f rest
            (setitem prices_df item s))"

definition get_pricing ::
  "('i, 'v) provider \<Rightarrow> (nat \<Rightarrow> string) \<Rightarrow> symbol \<Rightarrow> string \<Rightarrow> string option \<Rightarrow> string
     \<Rightarrow> fields option \<Rightarrow> error + ('i, 'v) frame"
where
  "get_pricing provider now symbol start_date end_date frequency flds =
     (case (symbol, flds) of
        (Tickers items, Some f) \<Rightarrow>
          if truthy f then
            (case fan_out provider now start_date end_date frequency f items empty_frame of
               Inl e \<Rightarrow> Inl e
             | Inr prices_df \<Rightarrow> Inr (dropna prices_df))
          else get_pricing_single provider (now 0) symbol start_date end_date frequency flds
      | _ \<Rightarrow> get_pricing_single provider (now 0) symbol start_date end_date frequency flds)"


subsection \<open>Labels and values the properties speak about\<close>

text \<open>
  The column labels of the table the provider returns, in the provider's order,
  and the six labels of the normalized table.
\<close>

definition native_labels :: "string list" where
  "native_labels = [''Open'', ''High'', ''Low'', ''Close'', ''Volume'', ''Dividends'', ''Stock Splits'']"

definition normalized_labels :: "string list" where
  "normalized_labels = [''open_price'', ''high'', ''low'', ''close_price'', ''volume'', ''price'']"

text \<open>
  What the specification calls a field of a symbol, read off the table that
  the provider returns for the symbol: five fields are columns of the provider
  under another label, and \<open>price\<close> is the closing price. The value of a field
  at a timestamp is the cell of that column; it is missing when the cell is NaN
  or when the table has no row at the timestamp.
\<close>

definition field_source :: "(string \<times> string) list" where
  "field_source = [(''open_price'', ''Open''), (''high'', ''High''), (''low'', ''Low''),
                   (''close_price'', ''Close''), (''volume'', ''Volume''), (''price'', ''Close'')]"

definition field_value :: "('i, 'v) frame \<Rightarrow> string \<Rightarrow> 'i \<Rightarrow> 'v option" where
  "field_value tbl name t =
     (case map_of field_source name of
        None \<Rightarrow> None
      | Some label \<Rightarrow> if t \<in> set (index tbl) then cell tbl label t else None)"

text \<open>
  The rows a call for several symbols can return are rows of the table of the
  first symbol: the empty table takes over the index of the first column that
  has rows, every later column is aligned to that index, and a row without a
  value for the first symbol does not survive \<open>dropna()\<close>.
\<close>

definition first_index :: "(string \<Rightarrow> ('i, 'v) frame) \<Rightarrow> string list \<Rightarrow> 'i list" where
  "first_index tbl items = (case items of [] \<Rightarrow> [] | item # rest \<Rightarrow> index (tbl item))"

text \<open>
  The invariant of the loop over the symbols, for the values \<open>V\<close> of the symbols:
  every column of the table under construction holds the values of its symbol
  on the index of the table; as long as the table has no rows, no symbol
  fetched so far has a value anywhere; and once it has rows, its index is the
  index of the column of one of its symbols.
\<close>

definition fan_out_invariant :: "(string \<Rightarrow> 'i \<Rightarrow> 'v option) \<Rightarrow> ('i, 'v) frame \<Rightarrow> bool" where
  "fan_out_invariant V F \<longleftrightarrow>
     (\<forall>(n, c) \<in> set (columns F). \<forall>t. c t = (if t \<in> set (index F) then V n t else None)) \<and>
     (index F = [] \<longrightarrow> (\<forall>n \<in> set (column_names F). \<forall>t. V n t = None)) \<and>
     (index F \<noteq> [] \<longrightarrow> (\<exists>n \<in> set (column_names F). \<forall>t. V n t \<noteq> None \<longrightarrow> t \<in> set (index F)))"

section \<open>Sample data\<close>

text \<open>
  Concrete series on which the definitions are run: \<open>line_y\<close> lies on the line
  with intercept 1 and slope 2 over \<open>line_x\<close>; \<open>zigzag\<close> is not constant on any
  window of five observations.
\<close>

definition line_x :: "nat series" where
  "line_x = [(0, 0), (1, 1), (2, 2), (3, 4)]"

definition line_y :: "nat series" where
  "line_y = [(0, 1), (1, 3), (2, 5), (3, 9)]"

definition zigzag :: "nat series" where
  "zigzag = [(0, 1), (1, 2), (2, 4), (3, 3), (4, 5), (5, 7), (6, 6)]"

text \<open>
  Two stores that hold the series \<open>line_y\<close> and \<open>line_x\<close> at different places,
  the second one among other objects.
\<close>

definition sample_store :: "nat store" where
  "sample_store = [SeriesObj line_y, SeriesObj line_x]"

definition other_store :: "nat store" where
  "other_store = [SeriesObj zigzag, SeriesObj line_x, TableObj (new_frame [9]), SeriesObj line_y]"

text \<open>
  A provider with two tickers. \<open>bars\<close> builds a table with the provider's labels
  from closing prices, some of them missing; the bars of \<open>A\<close> and \<open>B\<close> overlap
  on the timestamps 2, 3 and 4, and \<open>A\<close> has no price at 3. A list of tickers
  is answered with the table of \<open>A\<close>.
\<close>

definition bars :: "(nat \<times> real option) list \<Rightarrow> (nat, real) frame" where
  "bars ps =
     (let price = (\<lambda>t. case map_of ps t of None \<Rightarrow> None | Some v \<Rightarrow> v);
          volume = (\<lambda>t. case map_of ps t of None \<Rightarrow> None | Some v \<Rightarrow> Some 100);
          zero = (\<lambda>t. case map_of ps t of None \<Rightarrow> None | Some v \<Rightarrow> Some 0)
      in \<lparr>index = map fst ps,
          columns = [(''Open'', price), (''High'', price), (''Low'', price), (''Close'', price),
                     (''Volume'', volume), (''Dividends'', zero), (''Stock Splits'', zero)]\<rparr>)"

definition bars_A :: "(nat, real) frame" where
  "bars_A = bars [(1, Some 10), (2, Some 11), (3, None), (4, Some 13)]"

definition bars_B :: "(nat, real) frame" where
  "bars_B = bars [(2, Some 20), (3, Some 21), (4, Some 22), (5, Some 23)]"

definition sample_table :: "string \<Rightarrow> (nat, real) frame" where
  "sample_table item = (if item = ''A'' then bars_A else bars_B)"

definition sample_clock :: "nat \<Rightarrow> string" where
  "sample_clock k = (if k = 0 then ''2020-02-01 09:00:00'' else ''2020-02-01 09:00:01'')"

definition sample_provider :: "(nat, real) provider" where
  "sample_provider symbol start_date end_date interval =
     (case symbol of
        Ticker s \<Rightarrow>
          if s = ''A'' then Inr bars_A
          else if s = ''B'' then Inr bars_B
          else Inl (External ''no data'')
      | Tickers l \<Rightarrow> Inr bars_A)"

section \<open>Properties of the rolling regressor\<close>

lemmas run_simps = RollingOLS_def new_frame_def slice_from_def slice_def clip_index_def fit_window_def
  add_constant_def is_nonzero_const_def is_const_def exact_solver_def dot_def iloc_set_def
  nan_row_def Let_def line_x_def line_y_def zigzag_def

subsection \<open>Runs on the sample data\<close>

lemma upt_two: "[0 ..< 2] = [0, Suc 0]"
  by (simp add: upt_rec)

lemma line_windows: "length line_y - 2 = 2" "nat (int (length line_y) - 2) = 2"
  by (simp_all add: line_y_def)

lemma line_fit_0: "fit_window exact_solver line_y line_x 2 0 = Inr [1, 2]"
  by (simp add: run_simps)

lemma line_fit_1: "fit_window exact_solver line_y line_x 2 (Suc 0) = Inr [1, 2]"
  by (simp add: run_simps)

lemma zigzag_fit_1: "fit_window exact_solver zigzag zigzag 5 (Suc 0) = Inr [0, 1]"
  by (simp add: run_simps)

lemma zigzag_fit_0: "fit_window exact_solver zigzag zigzag 5 0 = Inr [0, 1]"
  by (simp add: run_simps)

lemma line_frame: "length line_y = 4" "map fst (slice_from 2 line_y) = [2, 3]"
  by (simp_all add: line_y_def slice_from_def clip_index_def)

lemma zigzag_frame: "length zigzag = 7" "map fst (slice_from 5 zigzag) = [5, 6]"
  by (simp_all add: zigzag_def slice_from_def clip_index_def)

lemma line_run:
  "RollingOLS exact_solver line_y line_x 2
     = Inr \<lparr>rindex = [2, 3],
            rrows = [\<lparr>x_field = Some 1, intercept_field = Some 2\<rparr>,
                     \<lparr>x_field = Some 1, intercept_field = Some 2\<rparr>]\<rparr>"
  by (simp add: RollingOLS_def line_frame upt_two line_fit_0 line_fit_1 new_frame_def
      iloc_set_def nan_row_def)

lemma zigzag_run:
  "RollingOLS exact_solver zigzag zigzag 5
     = Inr \<lparr>rindex = [5, 6],
            rrows = [\<lparr>x_field = Some 0, intercept_field = Some 1\<rparr>,
                     \<lparr>x_field = Some 0, intercept_field = Some 1\<rparr>]\<rparr>"
  by (simp add: RollingOLS_def zigzag_frame upt_two zigzag_fit_0 zigzag_fit_1 new_frame_def
      iloc_set_def nan_row_def)

subsection \<open>The loop\<close>

lemma iloc_set_shape:
  "iloc_set res i ps = Inr res' \<Longrightarrow>
     rindex res' = rindex res \<and> length (rrows res') = length (rrows res) \<and> i < length (rrows res)"
  by (auto simp: iloc_set_def split: if_splits list.splits)

lemma rolling_loop_shape:
  "rolling_loop fit y x w is res = Inr res' \<Longrightarrow>
     rindex res' = rindex res \<and> length (rrows res') = length (rrows res)"
proof (induction "is" arbitrary: res)
  case Nil
  then show ?case by simp
next
  case (Cons i "is")
  from Cons.prems obtain ps r where
    r: "iloc_set res i ps = Inr r" and rest: "rolling_loop fit y x w is r = Inr res'"
    by (auto split: sum.splits)
  from Cons.IH [OF rest] iloc_set_shape [OF r] show ?case by simp
qed

lemma rolling_loop_in_range:
  "rolling_loop fit y x w is res = Inr res' \<Longrightarrow> i \<in> set is \<Longrightarrow> i < length (rrows res)"
proof (induction "is" arbitrary: res)
  case Nil
  then show ?case by simp
next
  case (Cons j "is")
  from Cons.prems(1) obtain ps r where
    r: "iloc_set res j ps = Inr r" and rest: "rolling_loop fit y x w is r = Inr res'"
    by (auto split: sum.splits)
  show ?case
  proof (cases "i = j")
    case True
    with iloc_set_shape [OF r] show ?thesis by simp
  next
    case False
    with Cons.prems(2) have "i \<in> set is" by simp
    from Cons.IH [OF rest this] iloc_set_shape [OF r] show ?thesis by simp
  qed
qed


lemma iloc_set_rows:
  "iloc_set res i ps = Inr res' \<Longrightarrow>
     rrows res' = (rrows res)[i := \<lparr>x_field = Some (hd ps), intercept_field = Some (last ps)\<rparr>]
     \<and> (length ps = 1 \<or> length ps = 2)"
  by (auto simp: iloc_set_def split: if_splits list.splits)

lemma rolling_loop_untouched:
  "rolling_loop fit y x w is res = Inr res' \<Longrightarrow> i \<notin> set is \<Longrightarrow> rrows res' ! i = rrows res ! i"
proof (induction "is" arbitrary: res)
  case Nil
  then show ?case by simp
next
  case (Cons j "is")
  from Cons.prems(1) obtain ps r where
    r: "iloc_set res j ps = Inr r" and rest: "rolling_loop fit y x w is r = Inr res'"
    by (auto split: sum.splits)
  from Cons.prems(2) have ne: "i \<noteq> j" and "i \<notin> set is" by auto
  from Cons.IH [OF rest this(2)] iloc_set_rows [OF r] ne show ?case by simp
qed

lemma rolling_loop_row:
  "rolling_loop fit y x w is res = Inr res' \<Longrightarrow> distinct is \<Longrightarrow> i \<in> set is \<Longrightarrow>
     \<exists>ps. fit_window fit y x w i = Inr ps \<and> (length ps = 1 \<or> length ps = 2) \<and>
          rrows res' ! i = \<lparr>x_field = Some (hd ps), intercept_field = Some (last ps)\<rparr>"
proof (induction "is" arbitrary: res)
  case Nil
  then show ?case by simp
next
  case (Cons j "is")
  from Cons.prems(1) obtain ps r where
    f: "fit_window fit y x w j = Inr ps" and
    r: "iloc_set res j ps = Inr r" and rest: "rolling_loop fit y x w is r = Inr res'"
    by (auto split: sum.splits)
  show ?case
  proof (cases "i = j")
    case True
    with Cons.prems(2) have "i \<notin> set is" by simp
    from rolling_loop_untouched [OF rest this] iloc_set_rows [OF r] iloc_set_shape [OF r] f True
    show ?thesis by auto
  next
    case False
    with Cons.prems have "i \<in> set is" "distinct is" by simp_all
    from Cons.IH [OF rest this(2) this(1)] show ?thesis .
  qed
qed

lemma rolling_loop_total:
  "\<forall>i\<in>set is. i < length (rrows res) \<and>
      (\<exists>ps. fit_window fit y x w i = Inr ps \<and> (length ps = 1 \<or> length ps = 2)) \<Longrightarrow>
   \<exists>res'. rolling_loop fit y x w is res = Inr res'"
proof (induction "is" arbitrary: res)
  case Nil
  then show ?case by simp
next
  case (Cons j "is")
  then obtain ps where f: "fit_window fit y x w j = Inr ps" and
    len: "length ps = 1 \<or> length ps = 2" and j: "j < length (rrows res)"
    by auto
  from len j obtain r where r: "iloc_set res j ps = Inr r"
    by (cases ps; cases "tl ps") (auto simp: iloc_set_def split: list.splits)
  from iloc_set_shape [OF r] Cons.prems
  have "\<forall>i\<in>set is. i < length (rrows r) \<and>
      (\<exists>ps. fit_window fit y x w i = Inr ps \<and> (length ps = 1 \<or> length ps = 2))"
    by simp
  from Cons.IH [OF this] f r show ?case by simp
qed

lemma slice_from_nonneg:
  "0 \<le> w \<Longrightarrow> slice_from w xs = drop (nat w) xs"
  by (simp add: slice_from_def clip_index_def min_def)

lemma length_slice_from:
  "length (slice_from w xs) = length xs - clip_index w (length xs)"
  by (simp add: slice_from_def)

lemma RollingOLS_nonneg_window:
  assumes "RollingOLS fit y x window = Inr res"
  shows "0 \<le> window"
proof (rule ccontr)
  assume "\<not> 0 \<le> window"
  then have neg: "window < 0" by simp
  let ?n = "length (slice_from window y)"
  have le: "?n \<le> length y" by (simp add: length_slice_from)
  with neg have "?n \<in> set [0 ..< nat (int (length y) - window)]" by simp
  from rolling_loop_in_range [OF assms [unfolded RollingOLS_def] this]
  show False by (simp add: new_frame_def)
qed

lemma RollingOLS_shape:
  assumes "RollingOLS fit y x window = Inr res"
  shows "rindex res = map fst (drop (nat window) y)"
    and "length (rrows res) = length y - nat window"
proof -
  from assms have w: "0 \<le> window" by (rule RollingOLS_nonneg_window)
  from rolling_loop_shape [OF assms [unfolded RollingOLS_def]] w
  show "rindex res = map fst (drop (nat window) y)"
    and "length (rrows res) = length y - nat window"
    by (simp_all add: new_frame_def slice_from_nonneg)
qed

lemma RollingOLS_row:
  assumes "RollingOLS fit y x window = Inr res" and "int i < int (length y) - window"
  shows "\<exists>ps. fit_window fit y x window i = Inr ps \<and> (length ps = 1 \<or> length ps = 2) \<and>
          rrows res ! i = \<lparr>x_field = Some (hd ps), intercept_field = Some (last ps)\<rparr>"
proof -
  from assms(2) have "i \<in> set [0 ..< nat (int (length y) - window)]" by simp
  from rolling_loop_row [OF assms(1) [unfolded RollingOLS_def] _ this] show ?thesis by simp
qed

lemma RollingOLS_total:
  assumes "0 \<le> window"
    and "\<forall>i < length y - nat window.
           \<exists>ps. fit_window fit y x window i = Inr ps \<and> (length ps = 1 \<or> length ps = 2)"
  shows "\<exists>res. RollingOLS fit y x window = Inr res"
proof -
  from assms(1) have "nat (int (length y) - window) = length y - nat window" by simp
  with assms show ?thesis
    unfolding RollingOLS_def
    by (intro rolling_loop_total) (simp add: new_frame_def slice_from_nonneg)
qed

lemma slice_from_beyond:
  "int (length xs) \<le> w \<Longrightarrow> slice_from w xs = []"
  by (simp add: slice_from_def clip_index_def)

subsection \<open>Least squares on an exact line\<close>

text \<open>
  When the response lies exactly on a line \<open>a + b * x\<close> over a regressor window
  that is not constant, the normal equations of the design matrix built by
  \<open>add_constant\<close> have the single solution \<open>[a, b]\<close>: the coefficient of the
  constant column first, the coefficient of the regressor second.
\<close>

lemma line_sum0:
  "list_all2 (\<lambda>(t, v) (t', u). u = a + b * v) xs ys \<Longrightarrow>
   (\<Sum>((t, row), (t', u)) \<leftarrow> zip (map (\<lambda>(t, v). (t, [1, v])) xs) ys. row ! 0 * (u - dot [b0, b1] row))
     = (\<Sum>v \<leftarrow> map snd xs. (a - b0) + (b - b1) * v)"
  by (induction xs ys rule: list_all2_induct) (auto simp: dot_def algebra_simps)

lemma line_sum1:
  "list_all2 (\<lambda>(t, v) (t', u). u = a + b * v) xs ys \<Longrightarrow>
   (\<Sum>((t, row), (t', u)) \<leftarrow> zip (map (\<lambda>(t, v). (t, [1, v])) xs) ys. row ! 1 * (u - dot [b0, b1] row))
     = (\<Sum>v \<leftarrow> map snd xs. v * ((a - b0) + (b - b1) * v))"
  by (induction xs ys rule: list_all2_induct) (auto simp: dot_def algebra_simps)

lemma sum_squares_split:
  "(\<Sum>v \<leftarrow> vs. (c + d * v) * (c + d * v)) =
     c * (\<Sum>v \<leftarrow> vs. c + d * v) + d * (\<Sum>v \<leftarrow> vs. v * (c + d * v))"
  for c d :: real
  by (induction vs) (auto simp: algebra_simps)

lemma residuals_vanish:
  fixes c d :: real
  assumes "(\<Sum>v \<leftarrow> vs. c + d * v) = 0" and "(\<Sum>v \<leftarrow> vs. v * (c + d * v)) = 0"
  shows "\<forall>v \<in> set vs. c + d * v = 0"
proof -
  have "(\<Sum>v \<leftarrow> vs. (c + d * v) * (c + d * v)) = 0"
    unfolding sum_squares_split assms by simp
  moreover have "\<forall>q \<in> set (map (\<lambda>v. (c + d * v) * (c + d * v)) vs). 0 \<le> q"
    by auto
  ultimately have "\<forall>q \<in> set (map (\<lambda>v. (c + d * v) * (c + d * v)) vs). q = 0"
    by (simp only: sum_list_nonneg_eq_0_iff)
  then show ?thesis by auto
qed

lemma normal_equations_exact_line:
  assumes rel: "list_all2 (\<lambda>(t, v) (t', u). u = a + b * v) xs ys"
    and nc: "\<not> is_const (map snd xs)"
    and ne: "normal_equations (add_constant xs) ys ps"
  shows "ps = [a, b]"
proof -
  from nc have design: "add_constant xs = map (\<lambda>(t, v). (t, [1, v])) xs"
    by (simp add: add_constant_def is_nonzero_const_def)
  from nc obtain w where w: "w \<in> set (map snd xs)" "w \<noteq> hd (map snd xs)"
    by (auto simp: is_const_def list_all_iff)
  then have nonempty: "xs \<noteq> []" by auto
  then have h: "hd (map snd xs) \<in> set (map snd xs)" by (intro hd_in_set) simp
  from ne have "list_all (\<lambda>(t, row). length row = length ps) (map (\<lambda>(t, v). (t, [1, v])) xs)"
    unfolding normal_equations_def design by simp
  with nonempty have "length ps = 2"
    by (cases xs) auto
  then obtain b0 b1 where ps: "ps = [b0, b1]"
    by (cases ps; cases "tl ps") auto
  have upt: "[0 ..< length ps] = [0, 1]" by (simp add: ps upt_two)
  from ne have
    "(\<Sum>((t, row), (t', u)) \<leftarrow> zip (map (\<lambda>(t, v). (t, [1, v])) xs) ys. row ! 0 * (u - dot [b0, b1] row)) = 0"
    "(\<Sum>((t, row), (t', u)) \<leftarrow> zip (map (\<lambda>(t, v). (t, [1, v])) xs) ys. row ! 1 * (u - dot [b0, b1] row)) = 0"
    unfolding normal_equations_def design upt by (simp_all add: ps)
  then have "(\<Sum>v \<leftarrow> map snd xs. (a - b0) + (b - b1) * v) = 0"
    and "(\<Sum>v \<leftarrow> map snd xs. v * ((a - b0) + (b - b1) * v)) = 0"
    by (simp_all only: line_sum0 [OF rel] line_sum1 [OF rel])
  then have zero: "\<forall>v \<in> set (map snd xs). (a - b0) + (b - b1) * v = 0"
    by (rule residuals_vanish)
  from zero w(1) have 1: "(a - b0) + (b - b1) * w = 0" by blast
  from zero h have 2: "(a - b0) + (b - b1) * hd (map snd xs) = 0" by blast
  from 1 2 have "(b - b1) * (w - hd (map snd xs)) = 0" by (simp add: algebra_simps)
  with w(2) have "b1 = b" by simp
  with 1 have "b0 = a" by simp
  with \<open>b1 = b\<close> ps show ?thesis by simp
qed


lemma RollingOLS_line_row:
  assumes ok: "RollingOLS fit y x window = Inr res"
    and i: "int i < int (length y) - window"
    and line: "list_all2 (\<lambda>(t, v) (t', u). u = a + b * v)
                 (slice (int i) (int i + window) x) (slice (int i) (int i + window) y)"
    and nc: "\<not> is_const (map snd (slice (int i) (int i + window) x))"
    and ls: "\<forall>ps. fit_window fit y x window i = Inr ps \<longrightarrow>
               normal_equations (add_constant (slice (int i) (int i + window) x))
                 (slice (int i) (int i + window) y) ps"
  shows "rrows res ! i = \<lparr>x_field = Some a, intercept_field = Some b\<rparr>"
proof -
  from RollingOLS_row [OF ok i] obtain ps where
    ps: "fit_window fit y x window i = Inr ps" and
    row: "rrows res ! i = \<lparr>x_field = Some (hd ps), intercept_field = Some (last ps)\<rparr>"
    by blast
  from ls ps have "normal_equations (add_constant (slice (int i) (int i + window) x))
                 (slice (int i) (int i + window) y) ps" by blast
  from normal_equations_exact_line [OF line nc this] row show ?thesis by simp
qed

subsection \<open>Shape of the output\<close>

text \<open>
  Claim C4. When the window is at least as long as the series, the loop body
  never runs and the call returns a table without rows; nothing is raised,
  whatever the solver and the regressor series are.
\<close>

theorem RollingOLS_window_too_long:
  "int (length y) \<le> window \<Longrightarrow>
     RollingOLS fit y x window = Inr \<lparr>rindex = [], rrows = []\<rparr>"
  by (simp add: RollingOLS_def new_frame_def slice_from_beyond)

theorem RollingOLS_window_too_long_witness:
  "int (length [(1::nat, 2::real), (2, 3)]) \<le> 2 \<and>
   RollingOLS (\<lambda>_ _. Inl ValueError) [(1::nat, 2), (2, 3)] [] 2 = Inr \<lparr>rindex = [], rrows = []\<rparr>"
  using RollingOLS_window_too_long [of "[(1::nat, 2::real), (2, 3)]" 2 "\<lambda>_ _. Inl ValueError" "[]"]
  by simp

text \<open>
  Claim C2. When a call with \<open>window \<le> len(y)\<close> returns, output row \<open>i\<close> carries
  the timestamp of \<open>y\<close> at position \<open>window + i\<close>. For a positive window over
  distinct timestamps this is not the timestamp \<open>y[i + window - 1]\<close> at which the
  window of row \<open>i\<close> ends.
\<close>

theorem RollingOLS_row_timestamp:
  assumes "RollingOLS fit y x window = Inr res"
    and "window \<le> int (length y)"
    and "int i < int (length y) - window"
  shows "rindex res ! i = fst (y ! nat (window + int i)) \<and>
         (0 < window \<and> distinct (map fst y) \<longrightarrow> rindex res ! i \<noteq> fst (y ! nat (int i + window - 1)))"
proof -
  from assms(1) have w: "0 \<le> window" by (rule RollingOLS_nonneg_window)
  with assms(3) have i: "nat window + i < length y" by linarith
  from w have pos: "nat (window + int i) = nat window + i" by simp
  from RollingOLS_shape(1) [OF assms(1)] i
  have at: "rindex res ! i = map fst y ! (nat window + i)"
    by (simp add: drop_map [symmetric] del: drop_map)
  have "map fst y ! (nat window + i) \<noteq> map fst y ! (nat window + i - 1)"
    if "0 < window" and d: "distinct (map fst y)"
  proof -
    from that i have "nat window + i - 1 < length (map fst y)" "nat window + i < length (map fst y)"
      "nat window + i \<noteq> nat window + i - 1" by simp_all
    with d show ?thesis by (simp only: nth_eq_iff_index_eq) simp
  qed
  moreover have "nat (int i + window - 1) = nat window + i - 1" if "0 < window"
    using that by linarith
  ultimately show ?thesis using at pos i by auto
qed

theorem RollingOLS_row_timestamp_witness:
  "\<exists>res. RollingOLS exact_solver line_y line_x 2 = Inr res
     \<and> 2 \<le> int (length line_y) \<and> int 1 < int (length line_y) - 2
     \<and> (0::int) < 2 \<and> distinct (map fst line_y)
     \<and> rindex res ! 1 = fst (line_y ! nat (2 + int 1))
     \<and> rindex res ! 1 \<noteq> fst (line_y ! nat (int 1 + 2 - 1))"
proof -
  note h1 = line_run
  have h2: "2 \<le> int (length line_y)" by (simp add: line_y_def)
  have h3: "int 1 < int (length line_y) - 2" by (simp add: line_y_def)
  have h4: "distinct (map fst line_y)" by (simp add: line_y_def)
  from RollingOLS_row_timestamp [OF h1 h2 h3] h1 h2 h3 h4
  show ?thesis by simp
qed

text \<open>
  Claim C3. For a positive window with \<open>window \<le> len(y)\<close>, a call that returns
  gives a table of \<open>len(y) - window\<close> rows, and the call does return when the
  solver answers every window with one coefficient per column of its design
  matrix. With 40 observations and a window of 30 that is 10 rows.
\<close>

theorem RollingOLS_row_count:
  assumes "0 < window" and "window \<le> int (length y)"
  shows "(\<forall>res. RollingOLS fit y x window = Inr res \<longrightarrow>
            length (rrows res) = length y - nat window \<and> length (rindex res) = length y - nat window)
       \<and> ((\<forall>i < length y - nat window.
              \<exists>ps. fit_window fit y x window i = Inr ps \<and> (length ps = 1 \<or> length ps = 2))
           \<longrightarrow> (\<exists>res. RollingOLS fit y x window = Inr res))"
  using assms RollingOLS_shape [of fit y x window] RollingOLS_total [of window y fit x]
  by auto

theorem RollingOLS_row_count_witness:
  "(0::int) < 2 \<and> 2 \<le> int (length line_y)
   \<and> fit_window exact_solver line_y line_x 2 0 = Inr [1, 2]
   \<and> fit_window exact_solver line_y line_x 2 1 = Inr [1, 2]
   \<and> (\<exists>res. RollingOLS exact_solver line_y line_x 2 = Inr res
          \<and> length (rrows res) = length line_y - nat 2
          \<and> length (rindex res) = length line_y - nat 2)"
proof -
  have h1: "(0::int) < 2" by simp
  have h2: "2 \<le> int (length line_y)" by (simp add: line_y_def)
  have h3: "\<forall>i < length line_y - nat 2.
          \<exists>ps. fit_window exact_solver line_y line_x 2 i = Inr ps \<and> (length ps = 1 \<or> length ps = 2)"
    by (simp add: line_windows less_2_cases_iff line_fit_0 line_fit_1)
  from RollingOLS_row_count [OF h1 h2, of exact_solver line_x] h3
  have "\<exists>res. RollingOLS exact_solver line_y line_x 2 = Inr res
          \<and> length (rrows res) = length line_y - nat 2
          \<and> length (rindex res) = length line_y - nat 2"
    by blast
  with h1 h2 line_fit_0 line_fit_1 show ?thesis by simp
qed

lemma RollingOLS_forty_thirty:
  "length y = 40 \<Longrightarrow> RollingOLS fit y x 30 = Inr res \<Longrightarrow> length (rrows res) = 10"
  using RollingOLS_shape(2) [of fit y x 30 res] by simp

subsection \<open>Dependence on the inputs only, and no change to them\<close>

lemma load_series_append:
  "load_series st a = Inr s \<Longrightarrow> load_series (st @ [ob]) a = Inr s"
  by (auto simp: load_series_def nth_append split: if_splits)

lemma load_table_last: "load_table (st @ [TableObj tb]) (length st) = Inr tb"
  by (simp add: load_table_def)

lemma update_last: "(st @ [ob])[length st := ob'] = st @ [ob']"
  by simp

text \<open>
  The invariant of the loop in the store: the store is the store of the caller
  with the result table behind it. The loop in the store then does what the
  loop on the values of \<open>y\<close> and \<open>x\<close> does, and writes to the result table only.
\<close>

lemma rolling_loop_store_returns:
  assumes "load_series st yr = Inr y" and "load_series st xr = Inr x"
    and "rolling_loop fit y x window is res = Inr res'"
  shows "rolling_loop_store fit yr xr window (length st) is (st @ [TableObj res])
           = (Inr (length st), st @ [TableObj res'])"
  using assms(3)
proof (induction "is" arbitrary: res)
  case Nil
  then show ?case by simp
next
  case (Cons i "is")
  from Cons.prems obtain ps r where
    f: "fit_window fit y x window i = Inr ps" and
    r: "iloc_set res i ps = Inr r" and rest: "rolling_loop fit y x window is r = Inr res'"
    by (auto split: sum.splits)
  from Cons.IH [OF rest] show ?case
    by (simp add: load_series_append [OF assms(1)] load_series_append [OF assms(2)]
        load_table_last f r)
qed

lemma rolling_loop_store_raises:
  assumes "load_series st yr = Inr y" and "load_series st xr = Inr x"
    and "rolling_loop fit y x window is res = Inl e"
  shows "\<exists>tbl. rolling_loop_store fit yr xr window (length st) is (st @ [TableObj res])
           = (Inl e, st @ [TableObj tbl])"
  using assms(3)
proof (induction "is" arbitrary: res)
  case Nil
  then show ?case by simp
next
  case (Cons i "is")
  note loads = load_series_append [OF assms(1)] load_series_append [OF assms(2)] load_table_last
  show ?case
  proof (cases "fit_window fit y x window i")
    case (Inl e')
    with Cons.prems have "e' = e" by simp
    with Inl show ?thesis by (simp add: loads)
  next
    case (Inr ps)
    show ?thesis
    proof (cases "iloc_set res i ps")
      case (Inl e')
      with Cons.prems Inr have "e' = e" by simp
      with Inl Inr show ?thesis by (simp add: loads)
    next
      case r: (Inr r)
      with Cons.prems Inr have "rolling_loop fit y x window is r = Inl e" by simp
      from Cons.IH [OF this] Inr r show ?thesis by (simp add: loads)
    qed
  qed
qed

lemma RollingOLS_store_returns:
  assumes "load_series st yr = Inr y" and "load_series st xr = Inr x"
    and "RollingOLS fit y x window = Inr res"
  shows "RollingOLS_store fit yr xr window st = (Inr (length st), st @ [TableObj res])"
  using rolling_loop_store_returns [OF assms(1) assms(2) assms(3) [unfolded RollingOLS_def]]
  by (simp add: RollingOLS_store_def assms(1) Let_def)

lemma RollingOLS_store_raises:
  assumes "load_series st yr = Inr y" and "load_series st xr = Inr x"
    and "RollingOLS fit y x window = Inl e"
  shows "\<exists>tbl. RollingOLS_store fit yr xr window st = (Inl e, st @ [TableObj tbl])"
  using rolling_loop_store_raises [OF assms(1) assms(2) assms(3) [unfolded RollingOLS_def]]
  by (simp add: RollingOLS_store_def assms(1) Let_def)

text \<open>
  Claim C10. Let \<open>y\<close> and \<open>x\<close> be the series behind the two references. A call
  changes no object that exists when it starts, \<open>y\<close> and \<open>x\<close> among them: the
  store after the call is the store before it with one new object behind it,
  the result table, also when the call raises. What the caller gets is the
  table, or the error, that the loop computes from the values of \<open>y\<close>, \<open>x\<close>
  and \<open>window\<close>; so a second call with an equal \<open>y\<close>, an equal \<open>x\<close> and the same
  \<open>window\<close> gets the same, whatever else the store of that call holds and
  wherever the two series are in it. The solver is the black box of the
  specification: a function of the response window and the design matrix.
\<close>

theorem RollingOLS_no_side_effects:
  assumes "load_series st yr = Inr y" and "load_series st xr = Inr x"
    and "load_series st' yr' = Inr y" and "load_series st' xr' = Inr x"
  shows "(\<exists>tbl. snd (RollingOLS_store fit yr xr window st) = st @ [TableObj tbl])
       \<and> outcome (RollingOLS_store fit yr xr window st)
           = (case RollingOLS fit y x window of Inl e \<Rightarrow> Inl e | Inr res \<Rightarrow> Inr (TableObj res))
       \<and> outcome (RollingOLS_store fit yr' xr' window st')
           = outcome (RollingOLS_store fit yr xr window st)"
proof (cases "RollingOLS fit y x window")
  case (Inl e)
  from RollingOLS_store_raises [OF assms(1) assms(2) Inl]
    RollingOLS_store_raises [OF assms(3) assms(4) Inl]
  show ?thesis by (auto simp: outcome_def Inl)
next
  case (Inr res)
  from RollingOLS_store_returns [OF assms(1) assms(2) Inr]
    RollingOLS_store_returns [OF assms(3) assms(4) Inr]
  show ?thesis by (simp add: outcome_def Inr)
qed

theorem RollingOLS_no_side_effects_witness:
  "load_series sample_store 0 = Inr line_y \<and> load_series sample_store 1 = Inr line_x
   \<and> load_series other_store 3 = Inr line_y \<and> load_series other_store 1 = Inr line_x
   \<and> (\<exists>tbl. snd (RollingOLS_store exact_solver 0 1 2 sample_store) = sample_store @ [TableObj tbl])
   \<and> outcome (RollingOLS_store exact_solver 0 1 2 sample_store)
       = Inr (TableObj \<lparr>rindex = [2, 3],
                        rrows = [\<lparr>x_field = Some 1, intercept_field = Some 2\<rparr>,
                                 \<lparr>x_field = Some 1, intercept_field = Some 2\<rparr>]\<rparr>)
   \<and> outcome (RollingOLS_store exact_solver 3 1 2 other_store)
       = Inr (TableObj \<lparr>rindex = [2, 3],
                        rrows = [\<lparr>x_field = Some 1, intercept_field = Some 2\<rparr>,
                                 \<lparr>x_field = Some 1, intercept_field = Some 2\<rparr>]\<rparr>)"
proof -
  have h1: "load_series sample_store 0 = Inr line_y"
    and h2: "load_series sample_store 1 = Inr line_x"
    and h3: "load_series other_store 3 = Inr line_y"
    and h4: "load_series other_store 1 = Inr line_x"
    by (simp_all add: load_series_def sample_store_def other_store_def)
  from RollingOLS_no_side_effects [OF h1 h2 h3 h4, of exact_solver 2] h1 h2 h3 h4
  show ?thesis by (simp add: line_run)
qed

subsection \<open>Which coefficient goes into which column\<close>

text \<open>
  Claim C1. Row \<open>i\<close> of the output holds the answer of the solver for the window
  \<open>[i, i + window)\<close> of \<open>y\<close> on the same window of \<open>x\<close> with a constant column.
  The constant column is the first column of the design matrix, so the list of
  coefficients starts with the intercept, and the row assignment writes it into
  column \<open>'x'\<close> and the slope into column \<open>'intercept'\<close>: when the response window
  lies on the line \<open>a + b * x\<close>, with intercept \<open>a\<close> and slope \<open>b\<close>, the row has
  \<open>a\<close> in its \<open>'x'\<close> field and \<open>b\<close> in its \<open>'intercept'\<close> field, the other way round
  than the names of the columns say.
\<close>

theorem RollingOLS_stores_intercept_in_x_field:
  assumes "RollingOLS fit y x window = Inr res"
    and "int i < int (length y) - window"
    and "list_all2 (\<lambda>(t, v) (t', u). u = a + b * v)
           (slice (int i) (int i + window) x) (slice (int i) (int i + window) y)"
    and "\<not> is_const (map snd (slice (int i) (int i + window) x))"
    and "\<forall>ps. fit_window fit y x window i = Inr ps \<longrightarrow>
           normal_equations (add_constant (slice (int i) (int i + window) x))
             (slice (int i) (int i + window) y) ps"
  shows "x_field (rrows res ! i) = Some a \<and> intercept_field (rrows res ! i) = Some b"
  using RollingOLS_line_row [OF assms] by simp


theorem RollingOLS_stores_intercept_in_x_field_witness:
  "\<exists>res. RollingOLS exact_solver line_y line_x 2 = Inr res
   \<and> int 0 < int (length line_y) - 2
   \<and> list_all2 (\<lambda>(t, v) (t', u). u = 1 + 2 * v)
        (slice (int 0) (int 0 + 2) line_x) (slice (int 0) (int 0 + 2) line_y)
   \<and> \<not> is_const (map snd (slice (int 0) (int 0 + 2) line_x))
   \<and> fit_window exact_solver line_y line_x 2 0 = Inr [1, 2]
   \<and> normal_equations (add_constant (slice (int 0) (int 0 + 2) line_x))
         (slice (int 0) (int 0 + 2) line_y) [1, 2]
   \<and> x_field (rrows res ! 0) = Some 1
   \<and> intercept_field (rrows res ! 0) = Some 2"
proof -
  note h1 = line_run
  have h2: "int 0 < int (length line_y) - 2" by (simp add: line_y_def)
  have h3: "list_all2 (\<lambda>(t, v) (t', u). u = 1 + 2 * v)
        (slice (int 0) (int 0 + 2) line_x) (slice (int 0) (int 0 + 2) line_y)"
    by (simp add: run_simps)
  have h4: "\<not> is_const (map snd (slice (int 0) (int 0 + 2) line_x))"
    by (simp add: run_simps)
  have ne: "normal_equations (add_constant (slice (int 0) (int 0 + 2) line_x))
         (slice (int 0) (int 0 + 2) line_y) [1, 2]"
    by (simp add: run_simps normal_equations_def upt_two)
  have h5: "\<forall>ps. fit_window exact_solver line_y line_x 2 0 = Inr ps \<longrightarrow>
           normal_equations (add_constant (slice (int 0) (int 0 + 2) line_x))
             (slice (int 0) (int 0 + 2) line_y) ps"
  proof (intro allI impI)
    fix ps
    assume "fit_window exact_solver line_y line_x 2 0 = Inr ps"
    then have ps: "ps = [1, 2]" by (simp add: line_fit_0)
    show "normal_equations (add_constant (slice (int 0) (int 0 + 2) line_x))
             (slice (int 0) (int 0 + 2) line_y) ps"
      unfolding ps by (rule ne)
  qed
  from RollingOLS_stores_intercept_in_x_field [OF h1 h2 h3 h4 h5] h1 h2 h3 h4 ne line_fit_0
  show ?thesis by blast
qed

text \<open>
  Claim C5. When \<open>y\<close> and \<open>x\<close> are the same series and the window of row \<open>i\<close> is
  not constant, the fit has slope 1 and intercept 0, in exact arithmetic. The
  row stores the pair as in C1: its \<open>'x'\<close> field is 0 and its \<open>'intercept'\<close> field
  is 1. This holds for every window length, 5 among them.
\<close>

theorem RollingOLS_identical_series:
  assumes "RollingOLS fit x x window = Inr res"
    and "int i < int (length x) - window"
    and "\<not> is_const (map snd (slice (int i) (int i + window) x))"
    and "\<forall>ps. fit_window fit x x window i = Inr ps \<longrightarrow>
           normal_equations (add_constant (slice (int i) (int i + window) x))
             (slice (int i) (int i + window) x) ps"
  shows "x_field (rrows res ! i) = Some 0 \<and> intercept_field (rrows res ! i) = Some 1"
proof -
  have "list_all2 (\<lambda>(t, v) (t', u). u = 0 + 1 * v)
          (slice (int i) (int i + window) x) (slice (int i) (int i + window) x)"
    by (rule list_all2_refl) auto
  from RollingOLS_line_row [OF assms(1) assms(2) this assms(3) assms(4)]
  show ?thesis by simp
qed

theorem RollingOLS_identical_series_witness:
  "\<exists>res. RollingOLS exact_solver zigzag zigzag 5 = Inr res
   \<and> int 1 < int (length zigzag) - 5
   \<and> \<not> is_const (map snd (slice (int 1) (int 1 + 5) zigzag))
   \<and> fit_window exact_solver zigzag zigzag 5 1 = Inr [0, 1]
   \<and> normal_equations (add_constant (slice (int 1) (int 1 + 5) zigzag))
         (slice (int 1) (int 1 + 5) zigzag) [0, 1]
   \<and> x_field (rrows res ! 1) = Some 0
   \<and> intercept_field (rrows res ! 1) = Some 1"
proof -
  note h1 = zigzag_run
  have h2: "int 1 < int (length zigzag) - 5" by (simp add: zigzag_def)
  have h3: "\<not> is_const (map snd (slice (int 1) (int 1 + 5) zigzag))"
    by (simp add: run_simps)
  have ne: "normal_equations (add_constant (slice (int 1) (int 1 + 5) zigzag))
         (slice (int 1) (int 1 + 5) zigzag) [0, 1]"
    by (simp add: run_simps normal_equations_def upt_two)
  have h4: "\<forall>ps. fit_window exact_solver zigzag zigzag 5 1 = Inr ps \<longrightarrow>
           normal_equations (add_constant (slice (int 1) (int 1 + 5) zigzag))
             (slice (int 1) (int 1 + 5) zigzag) ps"
  proof (intro allI impI)
    fix ps
    assume "fit_window exact_solver zigzag zigzag 5 1 = Inr ps"
    then have ps: "ps = [0, 1]" by (simp add: zigzag_fit_1)
    show "normal_equations (add_constant (slice (int 1) (int 1 + 5) zigzag))
             (slice (int 1) (int 1 + 5) zigzag) ps"
      unfolding ps by (rule ne)
  qed
  have f: "fit_window exact_solver zigzag zigzag 5 1 = Inr [0, 1]"
    by (simp add: zigzag_fit_1)
  from RollingOLS_identical_series [OF h1 h2 h3 h4] h1 h2 h3 ne f
  show ?thesis by blast
qed

section \<open>Properties of the price fetcher\<close>

subsection \<open>The table of the provider and the sample provider\<close>

lemma native_columns:
  assumes "column_names tbl = native_labels"
  obtains c1 c2 c3 c4 c5 c6 c7 where
    "columns tbl = [(''Open'', c1), (''High'', c2), (''Low'', c3), (''Close'', c4),
                    (''Volume'', c5), (''Dividends'', c6), (''Stock Splits'', c7)]"
proof -
  from assms have "map fst (columns tbl) =
      [''Open'', ''High'', ''Low'', ''Close'', ''Volume'', ''Dividends'', ''Stock Splits'']"
    by (simp add: column_names_def native_labels_def)
  then show ?thesis
    by (auto simp: map_eq_Cons_conv intro: that)
qed

lemma process_native:
  assumes "columns tbl = [(''Open'', c1), (''High'', c2), (''Low'', c3), (''Close'', c4),
                    (''Volume'', c5), (''Dividends'', c6), (''Stock Splits'', c7)]"
  shows "process_data None tbl =
     Inr (tbl\<lparr>columns := [(''open_price'', c1), (''high'', c2), (''low'', c3), (''close_price'', c4),
                     (''volume'', c5),
                     (''price'', reindex \<lparr>cindex = index tbl, cvalues = c4\<rparr> (index tbl))]\<rparr>)"
  by (simp add: process_data_def rename_def drop_columns_def getitem_def setitem_def
      column_names_def assms Let_def)

lemma process_native_fields:
  assumes "columns tbl = [(''Open'', c1), (''High'', c2), (''Low'', c3), (''Close'', c4),
                    (''Volume'', c5), (''Dividends'', c6), (''Stock Splits'', c7)]"
    and "truthy f"
  shows "process_data (Some f) tbl =
     select (split_comma (join_fields f))
       (tbl\<lparr>columns := [(''open_price'', c1), (''high'', c2), (''low'', c3), (''close_price'', c4),
                     (''volume'', c5),
                     (''price'', reindex \<lparr>cindex = index tbl, cvalues = c4\<rparr> (index tbl))]\<rparr>)"
  by (simp add: process_data_def rename_def drop_columns_def getitem_def setitem_def
      column_names_def assms Let_def)

lemma get_pricing_ticker:
  "get_pricing provider now (Ticker s) start_date end_date frequency flds =
     (case provider (Ticker s) start_date (default_end (now 0) end_date) (yahoo_interval frequency) of
        Inl e \<Rightarrow> Inl e
      | Inr tbl \<Rightarrow> process_data flds tbl)"
  by (simp add: get_pricing_def get_pricing_single_def split: option.splits)

lemma sample_A:
  "sample_provider (Ticker ''A'') start_date end_date interval = Inr bars_A"
  "sample_provider (Tickers items) start_date end_date interval = Inr bars_A"
  "sample_provider (Ticker ''B'') start_date end_date interval = Inr bars_B"
  by (simp_all add: sample_provider_def)

lemma bars_labels: "column_names (bars ps) = native_labels" "index (bars ps) = map fst ps"
  by (simp_all add: bars_def column_names_def native_labels_def Let_def)

lemma bars_close:
  "cell (bars ps) ''Close'' t = (case map_of ps t of None \<Rightarrow> None | Some v \<Rightarrow> v)"
  by (simp add: bars_def cell_def Let_def)

lemma bars_columns:
  "columns (bars ps) =
      [(''Open'', \<lambda>t. case map_of ps t of None \<Rightarrow> None | Some v \<Rightarrow> v),
       (''High'', \<lambda>t. case map_of ps t of None \<Rightarrow> None | Some v \<Rightarrow> v),
       (''Low'', \<lambda>t. case map_of ps t of None \<Rightarrow> None | Some v \<Rightarrow> v),
       (''Close'', \<lambda>t. case map_of ps t of None \<Rightarrow> None | Some v \<Rightarrow> v),
       (''Volume'', \<lambda>t. case map_of ps t of None \<Rightarrow> None | Some v \<Rightarrow> Some 100),
       (''Dividends'', \<lambda>t. case map_of ps t of None \<Rightarrow> None | Some v \<Rightarrow> Some 0),
       (''Stock Splits'', \<lambda>t. case map_of ps t of None \<Rightarrow> None | Some v \<Rightarrow> Some 0)]"
  by (simp add: bars_def Let_def)

subsection \<open>One symbol\<close>

text \<open>
  Claim C7. For one symbol and no \<open>fields\<close>, when the provider returns its native
  table, the call returns a table with exactly the six normalized columns, in
  the order \<open>open_price, high, low, close_price, volume, price\<close>, on the index of
  the provider's table; in every row \<open>price\<close> equals \<open>close_price\<close>, which is the
  provider's \<open>Close\<close>.
\<close>

theorem get_pricing_all_fields:
  assumes "provider (Ticker s) start_date (default_end (now 0) end_date) (yahoo_interval frequency) = Inr tbl"
    and "column_names tbl = native_labels"
  shows "\<exists>df. get_pricing provider now (Ticker s) start_date end_date frequency None = Inr df
           \<and> column_names df = normalized_labels
           \<and> index df = index tbl
           \<and> (\<forall>t \<in> set (index df). cell df ''price'' t = cell df ''close_price'' t)
           \<and> (\<forall>t. cell df ''close_price'' t = cell tbl ''Close'' t)"
proof -
  from assms(2) obtain c1 c2 c3 c4 c5 c6 c7 where
    cols: "columns tbl = [(''Open'', c1), (''High'', c2), (''Low'', c3), (''Close'', c4),
                    (''Volume'', c5), (''Dividends'', c6), (''Stock Splits'', c7)]"
    by (rule native_columns)
  show ?thesis
    by (simp add: get_pricing_ticker assms(1) process_native [OF cols] column_names_def
        normalized_labels_def cell_def cols reindex_def)
qed

theorem get_pricing_all_fields_witness:
  "sample_provider (Ticker ''A'') ''2020-01-01'' (default_end (sample_clock 0) None) (yahoo_interval ''daily'')
     = Inr bars_A
   \<and> column_names bars_A = native_labels
   \<and> (\<exists>df. get_pricing sample_provider sample_clock (Ticker ''A'') ''2020-01-01'' None ''daily'' None = Inr df
         \<and> column_names df = normalized_labels
         \<and> index df = [1, 2, 3, 4]
         \<and> cell df ''price'' 2 = Some 11 \<and> cell df ''close_price'' 2 = Some 11
         \<and> cell df ''price'' 3 = None \<and> cell df ''close_price'' 3 = None)"
proof -
  have h1: "sample_provider (Ticker ''A'') ''2020-01-01'' (default_end (sample_clock 0) None)
      (yahoo_interval ''daily'') = Inr bars_A"
    by (rule sample_A)
  have h2: "column_names bars_A = native_labels"
    by (simp add: bars_A_def bars_labels)
  have i: "index bars_A = [1, 2, 3, 4]"
    by (simp add: bars_A_def bars_labels)
  have c: "cell bars_A ''Close'' 2 = Some 11" "cell bars_A ''Close'' 3 = None"
    by (simp_all add: bars_A_def bars_close)
  from get_pricing_all_fields [where provider = sample_provider and s = "''A''" and tbl = bars_A
      and start_date = "''2020-01-01''" and now = sample_clock and end_date = None
      and frequency = "''daily''", OF h1 h2]
  obtain df where
    df: "get_pricing sample_provider sample_clock (Ticker ''A'') ''2020-01-01'' None ''daily'' None = Inr df"
    and n: "column_names df = normalized_labels"
    and ix: "index df = index bars_A"
    and p: "\<forall>t \<in> set (index df). cell df ''price'' t = cell df ''close_price'' t"
    and cl: "\<forall>t. cell df ''close_price'' t = cell bars_A ''Close'' t"
    by blast
  from p ix i have "cell df ''price'' 2 = cell df ''close_price'' 2"
    and "cell df ''price'' 3 = cell df ''close_price'' 3" by simp_all
  with cl c have "cell df ''price'' 2 = Some 11" "cell df ''close_price'' 2 = Some 11"
    "cell df ''price'' 3 = None" "cell df ''close_price'' 3 = None" by simp_all
  with df n ix i h1 h2 show ?thesis by simp
qed

text \<open>
  Claim C6. The projection joins \<open>fields\<close> with the empty string before it splits
  at commas. For a list of two names the names are glued into one label, which
  is not a column, and the call raises \<open>KeyError\<close>: the result is not the
  projection on the requested columns that the claim and the docstring of
  \<open>get_pricing\<close> promise for a list of names.
\<close>

theorem get_pricing_field_list_glued:
  assumes "provider (Ticker s) start_date (default_end (now 0) end_date) (yahoo_interval frequency) = Inr tbl"
    and "column_names tbl = native_labels"
  shows "get_pricing provider now (Ticker s) start_date end_date frequency
           (Some (FieldList [''open_price'', ''high''])) = Inl (KeyError ''open_pricehigh'')"
proof -
  from assms(2) obtain c1 c2 c3 c4 c5 c6 c7 where
    cols: "columns tbl = [(''Open'', c1), (''High'', c2), (''Low'', c3), (''Close'', c4),
                    (''Volume'', c5), (''Dividends'', c6), (''Stock Splits'', c7)]"
    by (rule native_columns)
  have split: "split_comma (join_fields (FieldList [''open_price'', ''high''])) = [''open_pricehigh'']"
    by simp
  show ?thesis
    unfolding get_pricing_ticker assms(1) sum.case
    by (simp add: process_native_fields [OF cols] split select_def del: join_fields.simps split_comma.simps)
qed

theorem get_pricing_field_list_glued_witness:
  "sample_provider (Ticker ''A'') ''2020-01-01'' (default_end (sample_clock 0) None) (yahoo_interval ''daily'')
     = Inr bars_A
   \<and> column_names bars_A = native_labels
   \<and> get_pricing sample_provider sample_clock (Ticker ''A'') ''2020-01-01'' None ''daily''
        (Some (FieldList [''open_price'', ''high''])) = Inl (KeyError ''open_pricehigh'')"
proof -
  have h1: "sample_provider (Ticker ''A'') ''2020-01-01'' (default_end (sample_clock 0) None)
      (yahoo_interval ''daily'') = Inr bars_A"
    by (rule sample_A)
  have h2: "column_names bars_A = native_labels"
    by (simp add: bars_A_def bars_labels)
  from get_pricing_field_list_glued [where provider = sample_provider and s = "''A''" and tbl = bars_A
      and start_date = "''2020-01-01''" and now = sample_clock and end_date = None
      and frequency = "''daily''", OF h1 h2] h1 h2
  show ?thesis by simp
qed

text \<open>
  The same two names in one string, separated by a comma, are projected as
  requested.
\<close>

lemma get_pricing_field_string:
  assumes "provider (Ticker s) start_date (default_end (now 0) end_date) (yahoo_interval frequency) = Inr tbl"
    and "column_names tbl = native_labels"
  shows "\<exists>df. get_pricing provider now (Ticker s) start_date end_date frequency
           (Some (FieldStr ''open_price,high'')) = Inr df
           \<and> column_names df = [''open_price'', ''high'']
           \<and> index df = index tbl
           \<and> (\<forall>t. cell df ''open_price'' t = cell tbl ''Open'' t)
           \<and> (\<forall>t. cell df ''high'' t = cell tbl ''High'' t)"
proof -
  from assms(2) obtain c1 c2 c3 c4 c5 c6 c7 where
    cols: "columns tbl = [(''Open'', c1), (''High'', c2), (''Low'', c3), (''Close'', c4),
                    (''Volume'', c5), (''Dividends'', c6), (''Stock Splits'', c7)]"
    by (rule native_columns)
  have split: "split_comma (join_fields (FieldStr ''open_price,high'')) = [''open_price'', ''high'']"
    by simp
  show ?thesis
    unfolding get_pricing_ticker assms(1) sum.case
    by (simp add: process_native_fields [OF cols] split select_def column_names_def cell_def cols
        del: join_fields.simps split_comma.simps)
qed

subsection \<open>A list of symbols without fields\<close>

lemma process_data_falsy:
  "flds = None \<or> flds = Some (FieldStr []) \<or> flds = Some (FieldList []) \<Longrightarrow>
     process_data flds tbl = process_data None tbl"
  by (auto simp: process_data_def Let_def split: sum.splits)

lemma select_index: "select labels df = Inr df' \<Longrightarrow> index df' = index df"
  by (auto simp: select_def split: sum.splits)

lemma process_data_index:
  assumes "process_data flds tbl = Inr df"
  shows "index df = index tbl"
proof -
  let ?df1 = "rename [(''Open'', ''open_price''), (''High'', ''high''), (''Low'', ''low''),
                        (''Close'', ''close_price''), (''Volume'', ''volume'')] tbl"
  from assms obtain df2 close where
    d: "drop_columns [''Dividends'', ''Stock Splits''] ?df1 = Inr df2" and
    g: "getitem df2 ''close_price'' = Inr close" and
    r: "(case flds of None \<Rightarrow> Inr (setitem df2 ''price'' close)
          | Some f \<Rightarrow> if truthy f then select (split_comma (join_fields f)) (setitem df2 ''price'' close)
                      else Inr (setitem df2 ''price'' close)) = Inr df"
    by (auto simp: process_data_def Let_def split: sum.splits)
  from d have i2: "index df2 = index tbl"
    by (auto simp: drop_columns_def rename_def split: list.splits)
  from g have "cindex close = index df2"
    by (auto simp: getitem_def split: option.splits)
  then have i3: "index (setitem df2 ''price'' close) = index df2"
    by (simp add: setitem_def Let_def)
  from r i2 i3 show ?thesis
    by (auto split: option.splits if_splits dest: select_index)
qed

text \<open>
  Claim C9. When \<open>symbol\<close> is a list and \<open>fields\<close> is \<open>None\<close>, the empty string or
  the empty list, the call does not loop over the symbols: the list goes to the
  provider as it is, the result is the processed table of that single lookup
  (or its error), and no row is dropped: the index of the result is the index
  of the provider's table.
\<close>

theorem get_pricing_list_without_fields:
  assumes "flds = None \<or> flds = Some (FieldStr []) \<or> flds = Some (FieldList [])"
  shows "get_pricing provider now (Tickers items) start_date end_date frequency flds =
           (case provider (Tickers items) start_date (default_end (now 0) end_date) (yahoo_interval frequency) of
              Inl e \<Rightarrow> Inl e
            | Inr tbl \<Rightarrow> process_data None tbl)
         \<and> (\<forall>df. get_pricing provider now (Tickers items) start_date end_date frequency flds = Inr df \<longrightarrow>
               (\<exists>tbl. provider (Tickers items) start_date (default_end (now 0) end_date)
                        (yahoo_interval frequency) = Inr tbl
                      \<and> index df = index tbl))"
proof -
  from assms have eq: "get_pricing provider now (Tickers items) start_date end_date frequency flds =
           (case provider (Tickers items) start_date (default_end (now 0) end_date) (yahoo_interval frequency) of
              Inl e \<Rightarrow> Inl e
            | Inr tbl \<Rightarrow> process_data None tbl)"
    by (auto simp: get_pricing_def get_pricing_single_def
        process_data_falsy [of "Some (FieldStr [])"] process_data_falsy [of "Some (FieldList [])"]
        split: sum.splits)
  show ?thesis
    unfolding eq by (auto split: sum.splits dest: process_data_index)
qed

theorem get_pricing_list_without_fields_witness:
  "((None :: fields option) = None \<or> None = Some (FieldStr []) \<or> None = Some (FieldList []))
   \<and> sample_provider (Tickers [''A'', ''B'']) ''2020-01-01'' (default_end (sample_clock 0) None)
        (yahoo_interval ''daily'') = Inr bars_A
   \<and> get_pricing sample_provider sample_clock (Tickers [''A'', ''B'']) ''2020-01-01'' None ''daily'' None
       = process_data None bars_A
   \<and> (\<exists>df. get_pricing sample_provider sample_clock (Tickers [''A'', ''B'']) ''2020-01-01'' None
              ''daily'' None = Inr df
         \<and> index df = [1, 2, 3, 4]
         \<and> column_names df = normalized_labels
         \<and> cell df ''price'' 3 = None)"
proof -
  have h: "(None :: fields option) = None \<or> None = Some (FieldStr []) \<or> None = Some (FieldList [])"
    by simp
  have p: "sample_provider (Tickers [''A'', ''B'']) ''2020-01-01'' (default_end (sample_clock 0) None)
        (yahoo_interval ''daily'') = Inr bars_A"
    by (rule sample_A)
  have i: "index bars_A = [1, 2, 3, 4]"
    by (simp add: bars_A_def bars_labels)
  from get_pricing_list_without_fields [OF h, of sample_provider sample_clock "[''A'', ''B'']"
      "''2020-01-01''" None "''daily''"]
  have eq: "get_pricing sample_provider sample_clock (Tickers [''A'', ''B'']) ''2020-01-01'' None ''daily'' None
       = process_data None bars_A"
    by (simp add: p)
  have "\<exists>df. process_data None bars_A = Inr df
         \<and> index df = [1, 2, 3, 4]
         \<and> column_names df = normalized_labels
         \<and> cell df ''price'' 3 = None"
    unfolding bars_A_def
    by (simp add: process_native [OF bars_columns] bars_labels column_names_def normalized_labels_def
        cell_def reindex_def)
  with h p eq show ?thesis by simp
qed

subsection \<open>Several symbols\<close>

lemma in_set_column: "p \<in> set (set_column n c ps) \<Longrightarrow> p = (n, c) \<or> p \<in> set ps"
  by (induction ps) (auto split: if_splits)

lemma set_column_names:
  "map fst (set_column n c ps) = (if n \<in> set (map fst ps) then map fst ps else map fst ps @ [n])"
  by (induction ps) auto

lemma names_blank: "map fst (map (\<lambda>(n, c). (n, d)) cols) = map fst cols"
  by (induction cols) auto

lemma setitem_names:
  "column_names (setitem F item s) =
     (if item \<in> set (column_names F) then column_names F else column_names F @ [item])"
  unfolding setitem_def column_names_def Let_def
  by (simp add: set_column_names names_blank del: set_map map_map)

lemma fan_out_invariant_empty: "fan_out_invariant V empty_frame"
  by (simp add: fan_out_invariant_def empty_frame_def column_names_def)

lemma fan_out_invariant_setitem:
  assumes V: "\<And>t. V item t = (if t \<in> set (cindex s) then cvalues s t else None)"
    and inv: "fan_out_invariant V F"
  shows "fan_out_invariant V (setitem F item s)"
proof (cases "index F = [] \<and> cindex s \<noteq> []")
  case True
  then have idx: "index (setitem F item s) = cindex s"
    and cols: "columns (setitem F item s) =
      set_column item (reindex s (cindex s)) (map (\<lambda>(n, c). (n, Map.empty)) (columns F))"
    by (simp_all add: setitem_def Let_def)
  from inv True have none: "\<And>n t. n \<in> set (column_names F) \<Longrightarrow> V n t = None"
    by (simp add: fan_out_invariant_def)
  have 1: "\<forall>(n, c) \<in> set (columns (setitem F item s)).
             \<forall>t. c t = (if t \<in> set (index (setitem F item s)) then V n t else None)"
  proof (clarify)
    fix n c t
    assume "(n, c) \<in> set (columns (setitem F item s))"
    then have "(n, c) = (item, reindex s (cindex s)) \<or>
        (n, c) \<in> set (map (\<lambda>(n, c). (n, Map.empty)) (columns F))"
      unfolding cols by (rule in_set_column)
    then show "c t = (if t \<in> set (index (setitem F item s)) then V n t else None)"
    proof
      assume "(n, c) = (item, reindex s (cindex s))"
      then show ?thesis by (simp add: reindex_def V idx)
    next
      assume "(n, c) \<in> set (map (\<lambda>(n, c). (n, Map.empty)) (columns F))"
      then have "n \<in> set (column_names F)" and "c = Map.empty"
        by (force simp: column_names_def)+
      with none show ?thesis by simp
    qed
  qed
  have 2: "index (setitem F item s) = [] \<longrightarrow>
             (\<forall>n \<in> set (column_names (setitem F item s)). \<forall>t. V n t = None)"
    using True by (simp add: idx)
  have "item \<in> set (column_names (setitem F item s))"
    by (simp add: setitem_names)
  moreover have "\<forall>t. V item t \<noteq> None \<longrightarrow> t \<in> set (index (setitem F item s))"
    by (simp add: V idx)
  ultimately have 3: "index (setitem F item s) \<noteq> [] \<longrightarrow>
      (\<exists>n \<in> set (column_names (setitem F item s)).
         \<forall>t. V n t \<noteq> None \<longrightarrow> t \<in> set (index (setitem F item s)))"
    by blast
  from 1 2 3 show ?thesis
    unfolding fan_out_invariant_def by (intro conjI)
next
  case False
  then have idx: "index (setitem F item s) = index F"
    and cols: "columns (setitem F item s) = set_column item (reindex s (index F)) (columns F)"
    by (auto simp: setitem_def Let_def)
  from inv have old: "\<And>n c t. (n, c) \<in> set (columns F) \<Longrightarrow>
      c t = (if t \<in> set (index F) then V n t else None)"
    unfolding fan_out_invariant_def by blast
  have 1: "\<forall>(n, c) \<in> set (columns (setitem F item s)).
             \<forall>t. c t = (if t \<in> set (index (setitem F item s)) then V n t else None)"
  proof (clarify)
    fix n c t
    assume "(n, c) \<in> set (columns (setitem F item s))"
    then have "(n, c) = (item, reindex s (index F)) \<or> (n, c) \<in> set (columns F)"
      unfolding cols by (rule in_set_column)
    then show "c t = (if t \<in> set (index (setitem F item s)) then V n t else None)"
    proof
      assume "(n, c) = (item, reindex s (index F))"
      then show ?thesis by (simp add: reindex_def V idx)
    next
      assume "(n, c) \<in> set (columns F)"
      from old [OF this] show ?thesis by (simp add: idx)
    qed
  qed
  have 2: "index (setitem F item s) = [] \<longrightarrow>
             (\<forall>n \<in> set (column_names (setitem F item s)). \<forall>t. V n t = None)"
  proof (intro impI ballI allI)
    fix n t
    assume e: "index (setitem F item s) = []"
      and n: "n \<in> set (column_names (setitem F item s))"
    from e have e': "index F = []" by (simp add: idx)
    show "V n t = None"
    proof (cases "n = item")
      case True
      from False e' have "cindex s = []" by simp
      with True show ?thesis by (simp add: V)
    next
      case ne: False
      with n have "n \<in> set (column_names F)" by (simp add: setitem_names split: if_splits)
      with inv e' show ?thesis by (simp add: fan_out_invariant_def)
    qed
  qed
  have 3: "index (setitem F item s) \<noteq> [] \<longrightarrow>
      (\<exists>n \<in> set (column_names (setitem F item s)).
         \<forall>t. V n t \<noteq> None \<longrightarrow> t \<in> set (index (setitem F item s)))"
  proof
    assume "index (setitem F item s) \<noteq> []"
    then have "index F \<noteq> []" by (simp add: idx)
    with inv obtain n where n: "n \<in> set (column_names F)"
      and t: "\<forall>t. V n t \<noteq> None \<longrightarrow> t \<in> set (index F)"
      unfolding fan_out_invariant_def by blast
    from n have "n \<in> set (column_names (setitem F item s))" by (simp add: setitem_names)
    with t show "\<exists>n \<in> set (column_names (setitem F item s)).
         \<forall>t. V n t \<noteq> None \<longrightarrow> t \<in> set (index (setitem F item s))"
      unfolding idx by blast
  qed
  from 1 2 3 show ?thesis
    unfolding fan_out_invariant_def by (intro conjI)
qed

lemma fan_out_total:
  assumes "\<forall>k < length items. \<exists>s.
             item_column provider (now k) start_date end_date frequency f (items ! k) = Inr s
             \<and> (\<forall>t. V (items ! k) t = (if t \<in> set (cindex s) then cvalues s t else None))"
    and "fan_out_invariant V F"
  shows "\<exists>F'. fan_out provider now start_date end_date frequency f items F = Inr F'
           \<and> fan_out_invariant V F'
           \<and> set (column_names F') = set (column_names F) \<union> set items
           \<and> (distinct (column_names F @ items) \<longrightarrow> column_names F' = column_names F @ items)
           \<and> (index F \<noteq> [] \<longrightarrow> index F' = index F)"
  using assms
proof (induction items arbitrary: F now)
  case Nil
  then show ?case by simp
next
  case (Cons item rest)
  from Cons.prems(1) have "\<exists>s.
      item_column provider (now 0) start_date end_date frequency f ((item # rest) ! 0) = Inr s
      \<and> (\<forall>t. V ((item # rest) ! 0) t = (if t \<in> set (cindex s) then cvalues s t else None))"
    by blast
  then obtain s where
    s: "item_column provider (now 0) start_date end_date frequency f item = Inr s"
    and v: "\<And>t. V item t = (if t \<in> set (cindex s) then cvalues s t else None)"
    by auto
  have inv1: "fan_out_invariant V (setitem F item s)"
    by (rule fan_out_invariant_setitem [OF v Cons.prems(2)])
  have "\<forall>k < length rest. \<exists>s.
          item_column provider (now (Suc k)) start_date end_date frequency f (rest ! k) = Inr s
          \<and> (\<forall>t. V (rest ! k) t = (if t \<in> set (cindex s) then cvalues s t else None))"
  proof (intro allI impI)
    fix k assume "k < length rest"
    then have "Suc k < length (item # rest)" by simp
    with Cons.prems(1) have "\<exists>s.
        item_column provider (now (Suc k)) start_date end_date frequency f ((item # rest) ! Suc k) = Inr s
        \<and> (\<forall>t. V ((item # rest) ! Suc k) t = (if t \<in> set (cindex s) then cvalues s t else None))"
      by blast
    then show "\<exists>s.
        item_column provider (now (Suc k)) start_date end_date frequency f (rest ! k) = Inr s
        \<and> (\<forall>t. V (rest ! k) t = (if t \<in> set (cindex s) then cvalues s t else None))"
      by simp
  qed
  from Cons.IH [of "\<lambda>k. now (Suc k)", OF this inv1] obtain F' where
    run: "fan_out provider (\<lambda>k. now (Suc k)) start_date end_date frequency f rest (setitem F item s)
            = Inr F'"
    and inv': "fan_out_invariant V F'"
    and names: "set (column_names F') = set (column_names (setitem F item s)) \<union> set rest"
    and order: "distinct (column_names (setitem F item s) @ rest) \<longrightarrow>
                  column_names F' = column_names (setitem F item s) @ rest"
    and idx: "index (setitem F item s) \<noteq> [] \<longrightarrow> index F' = index (setitem F item s)"
    by blast
  have "fan_out provider now start_date end_date frequency f (item # rest) F = Inr F'"
    by (simp add: s run)
  moreover from names have "set (column_names F') = set (column_names F) \<union> set (item # rest)"
    by (auto simp: setitem_names split: if_splits)
  moreover from order have "distinct (column_names F @ item # rest) \<longrightarrow>
      column_names F' = column_names F @ item # rest"
    by (simp add: setitem_names)
  moreover from idx have "index F \<noteq> [] \<longrightarrow> index F' = index F"
    by (simp add: setitem_def Let_def)
  ultimately show ?case using inv' by blast
qed

lemma dropna_simps:
  "column_names (dropna F) = column_names F"
  "columns (dropna F) = columns F"
  "set (index (dropna F)) = {t \<in> set (index F). \<forall>(n, c) \<in> set (columns F). c t \<noteq> None}"
  by (auto simp: dropna_def column_names_def list_all_iff)

text \<open>
  The right-hand side of the loop for one symbol, when the provider returns its
  native table and one field is asked for: the column has the index of the
  provider's table and holds the values of the field.
\<close>

lemma split_comma_label: "name \<in> set normalized_labels \<Longrightarrow> split_comma name = [name]"
  by (auto simp: normalized_labels_def)

lemma item_column_native:
  assumes p: "provider (Ticker item) start_date (default_end now end_date) (yahoo_interval frequency)
             = Inr tbl"
    and n: "column_names tbl = native_labels"
    and l: "name \<in> set normalized_labels"
    and f: "f = FieldStr name \<or> f = FieldList [name]"
  shows "\<exists>s. item_column provider now start_date end_date frequency f item = Inr s
           \<and> cindex s = index tbl
           \<and> (\<forall>t. (if t \<in> set (cindex s) then cvalues s t else None) = field_value tbl name t)"
proof -
  from n obtain c1 c2 c3 c4 c5 c6 c7 where
    cols: "columns tbl = [(''Open'', c1), (''High'', c2), (''Low'', c3), (''Close'', c4),
                    (''Volume'', c5), (''Dividends'', c6), (''Stock Splits'', c7)]"
    by (rule native_columns)
  from f have tr: "truthy f" and j: "join_fields f = name"
    using l by (auto simp: normalized_labels_def)
  have split: "split_comma (join_fields f) = [name]"
    unfolding j by (rule split_comma_label [OF l])
  have single: "get_pricing_single provider now (Ticker item) start_date end_date frequency (Some f) =
      select [name]
       (tbl\<lparr>columns := [(''open_price'', c1), (''high'', c2), (''low'', c3), (''close_price'', c4),
                     (''volume'', c5),
                     (''price'', reindex \<lparr>cindex = index tbl, cvalues = c4\<rparr> (index tbl))]\<rparr>)"
    unfolding get_pricing_single_def p sum.case process_native_fields [OF cols tr] split ..
  from l have "name = ''open_price'' \<or> name = ''high'' \<or> name = ''low'' \<or> name = ''close_price''
      \<or> name = ''volume'' \<or> name = ''price''"
    by (simp add: normalized_labels_def)
  with f show ?thesis
    unfolding item_column_def single
    by (elim disjE)
      (simp_all add: select_def getitem_def field_value_def field_source_def cell_def cols reindex_def)
qed

text \<open>Without symbols the loop does not run and the table stays empty.\<close>

lemma get_pricing_no_symbols:
  "truthy f \<Longrightarrow>
     get_pricing provider now (Tickers []) start_date end_date frequency (Some f) = Inr empty_frame"
  by (simp add: get_pricing_def dropna_def empty_frame_def)

text \<open>
  As it is written, the claim speaks of every non-empty \<open>fields\<close>. The loop
  indexes the table of each symbol with \<open>fields\<close> itself, so a request for two
  fields in one string fails although the provider answers every symbol with
  its native table: the recursive call returns the two columns, and
  \<open>'open_price,high'\<close> is not the label of a column.
\<close>

theorem get_pricing_several_symbols_two_fields:
  "sample_provider (Ticker ''A'') ''2020-01-01'' (default_end (sample_clock 0) None) (yahoo_interval ''daily'')
     = Inr bars_A
   \<and> sample_provider (Ticker ''B'') ''2020-01-01'' (default_end (sample_clock 1) None) (yahoo_interval ''daily'')
     = Inr bars_B
   \<and> column_names bars_A = native_labels \<and> column_names bars_B = native_labels
   \<and> truthy (FieldStr ''open_price,high'')
   \<and> get_pricing sample_provider sample_clock (Tickers [''A'', ''B'']) ''2020-01-01'' None ''daily''
        (Some (FieldStr ''open_price,high'')) = Inl (KeyError ''open_price,high'')"
proof -
  have split: "split_comma (join_fields (FieldStr ''open_price,high'')) = [''open_price'', ''high'']"
    by simp
  have tr: "truthy (FieldStr ''open_price,high'')" by simp
  have "item_column sample_provider (sample_clock 0) ''2020-01-01'' None ''daily''
          (FieldStr ''open_price,high'') ''A'' = Inl (KeyError ''open_price,high'')"
    unfolding item_column_def get_pricing_single_def sample_A sum.case bars_A_def
      process_native_fields [OF bars_columns tr] split
    by (simp add: select_def getitem_def)
  then have "get_pricing sample_provider sample_clock (Tickers [''A'', ''B'']) ''2020-01-01'' None ''daily''
        (Some (FieldStr ''open_price,high'')) = Inl (KeyError ''open_price,high'')"
    by (simp add: get_pricing_def)
  then show ?thesis
    by (simp add: sample_A bars_A_def bars_B_def bars_labels)
qed

text \<open>
  A list of two names fails in the recursive call already: the names are glued
  into one label there.
\<close>

lemma get_pricing_symbols_field_list:
  "get_pricing sample_provider sample_clock (Tickers [''A'', ''B'']) ''2020-01-01'' None ''daily''
     (Some (FieldList [''price'', ''volume''])) = Inl (KeyError ''pricevolume'')"
  by (simp add: get_pricing_def item_column_def get_pricing_single_def sample_provider_def bars_A_def
      process_native_fields [OF bars_columns] select_def)

text \<open>
  Claim C8, for one field. Let \<open>fields\<close> name one of the six fields, as a string
  or as a list of that one name, and let the provider answer the fetch of every
  symbol of the list with its native table for that symbol. Then the call
  returns a table whose columns are the symbols, in the order of the list when
  the symbols are distinct. Its rows are the timestamps of the table of the
  first symbol, in their order, at which every symbol has a value of the field;
  for a list that is not empty these are exactly the timestamps at which every
  symbol has one. Each cell is the value of the field that the provider's table
  gives for the symbol of the column. So every row with a missing value for any
  symbol is dropped, and only those.
\<close>

theorem get_pricing_several_symbols:
  assumes "name \<in> set normalized_labels"
    and "f = FieldStr name \<or> f = FieldList [name]"
    and "\<forall>k < length items.
           provider (Ticker (items ! k)) start_date (default_end (now k) end_date)
               (yahoo_interval frequency) = Inr (tbl (items ! k))
           \<and> column_names (tbl (items ! k)) = native_labels"
  shows "\<exists>df. get_pricing provider now (Tickers items) start_date end_date frequency (Some f) = Inr df
           \<and> set (column_names df) = set items
           \<and> (distinct items \<longrightarrow> column_names df = items)
           \<and> index df = filter (\<lambda>t. \<forall>item \<in> set items. field_value (tbl item) name t \<noteq> None)
                          (first_index tbl items)
           \<and> (items \<noteq> [] \<longrightarrow>
                (\<forall>t. t \<in> set (index df) \<longleftrightarrow>
                   (\<forall>item \<in> set items. field_value (tbl item) name t \<noteq> None)))
           \<and> (\<forall>item \<in> set items. \<forall>t \<in> set (index df).
                 cell df item t = field_value (tbl item) name t)"
proof (cases "items = []")
  case True
  from assms(2) assms(1) have "truthy f" by (auto simp: normalized_labels_def)
  with True show ?thesis
    by (simp add: get_pricing_def dropna_def empty_frame_def column_names_def first_index_def)
next
  case nonempty: False
  let ?V = "\<lambda>item. field_value (tbl item) name"
  from assms(2) assms(1) have tr: "truthy f" by (auto simp: normalized_labels_def)
  have col: "\<exists>s. item_column provider (now k) start_date end_date frequency f (items ! k) = Inr s
           \<and> cindex s = index (tbl (items ! k))
           \<and> (\<forall>t. (if t \<in> set (cindex s) then cvalues s t else None) = ?V (items ! k) t)"
    if "k < length items" for k
  proof -
    from that assms(3) have
      "provider (Ticker (items ! k)) start_date (default_end (now k) end_date)
               (yahoo_interval frequency) = Inr (tbl (items ! k))"
      and "column_names (tbl (items ! k)) = native_labels"
      by blast+
    then show ?thesis using assms(1) assms(2) by (rule item_column_native)
  qed
  then have "\<forall>k < length items. \<exists>s.
             item_column provider (now k) start_date end_date frequency f (items ! k) = Inr s
             \<and> (\<forall>t. ?V (items ! k) t = (if t \<in> set (cindex s) then cvalues s t else None))"
    by metis
  from fan_out_total [OF this fan_out_invariant_empty] obtain F where
    run: "fan_out provider now start_date end_date frequency f items empty_frame = Inr F"
    and inv: "fan_out_invariant ?V F"
    and names: "set (column_names F) = set items"
    and order: "distinct items \<longrightarrow> column_names F = items"
    by (auto simp: empty_frame_def column_names_def)
  from inv have vals: "\<And>n c t. (n, c) \<in> set (columns F) \<Longrightarrow>
      c t = (if t \<in> set (index F) then ?V n t else None)"
    unfolding fan_out_invariant_def by blast
  have col_of: "\<exists>c. (item, c) \<in> set (columns F) \<and> map_of (columns F) item = Some c"
    if "item \<in> set items" for item
  proof -
    from that names have "item \<in> fst ` set (columns F)" by (simp add: column_names_def)
    then obtain c where "map_of (columns F) item = Some c"
      by (cases "map_of (columns F) item") (auto simp: map_of_eq_None_iff)
    then show ?thesis by (auto dest: map_of_SomeD)
  qed
  have in_index: "t \<in> set (index F)" if all: "\<forall>item \<in> set items. ?V item t \<noteq> None" for t
  proof (cases "index F = []")
    case True
    from nonempty obtain item where item: "item \<in> set items" by (cases items) auto
    with inv True names have "?V item t = None" by (simp add: fan_out_invariant_def)
    with all item show ?thesis by blast
  next
    case False
    with inv obtain n where "n \<in> set (column_names F)"
      and "\<forall>t. ?V n t \<noteq> None \<longrightarrow> t \<in> set (index F)"
      unfolding fan_out_invariant_def by blast
    with all names show ?thesis by blast
  qed
  have full: "list_all (\<lambda>(n, c). c t \<noteq> None) (columns F) \<longleftrightarrow> (\<forall>item \<in> set items. ?V item t \<noteq> None)"
    if ti: "t \<in> set (index F)" for t
  proof
    assume a: "list_all (\<lambda>(n, c). c t \<noteq> None) (columns F)"
    show "\<forall>item \<in> set items. ?V item t \<noteq> None"
    proof
      fix item assume "item \<in> set items"
      from col_of [OF this] obtain c where c: "(item, c) \<in> set (columns F)" by blast
      with a have "c t \<noteq> None" by (auto simp: list_all_iff)
      with vals [OF c, of t] ti show "?V item t \<noteq> None" by simp
    qed
  next
    assume all: "\<forall>item \<in> set items. ?V item t \<noteq> None"
    have "c t \<noteq> None" if c: "(n, c) \<in> set (columns F)" for n c
    proof -
      from c have "n \<in> set (column_names F)" by (force simp: column_names_def)
      with names all have "?V n t \<noteq> None" by blast
      with vals [OF c, of t] ti show ?thesis by simp
    qed
    then show "list_all (\<lambda>(n, c). c t \<noteq> None) (columns F)" by (auto simp: list_all_iff)
  qed
  have rows: "t \<in> set (index (dropna F)) \<longleftrightarrow> (\<forall>item \<in> set items. ?V item t \<noteq> None)" for t
    using full [of t] in_index [of t] by (auto simp: dropna_def)
  have cells: "cell (dropna F) item t = ?V item t"
    if "item \<in> set items" and "t \<in> set (index (dropna F))" for item t
  proof -
    from col_of [OF that(1)] obtain c where
      c: "(item, c) \<in> set (columns F)" and m: "map_of (columns F) item = Some c" by blast
    from that(2) have "t \<in> set (index F)" by (simp add: dropna_simps)
    with vals [OF c, of t] m show ?thesis by (simp add: cell_def dropna_simps)
  qed
  have listed: "index (dropna F) =
      filter (\<lambda>t. \<forall>item \<in> set items. ?V item t \<noteq> None) (first_index tbl items)"
  proof -
    from nonempty obtain item rest where items: "items = item # rest" by (cases items) auto
    from col [of 0] items obtain s where
      s: "item_column provider (now 0) start_date end_date frequency f item = Inr s"
      and si: "cindex s = index (tbl item)"
      and sv: "\<And>t. (if t \<in> set (cindex s) then cvalues s t else None) = ?V item t"
      by auto
    from run items s have rest:
      "fan_out provider (\<lambda>k. now (Suc k)) start_date end_date frequency f rest
         (setitem empty_frame item s) = Inr F"
      by simp
    have first: "index (setitem empty_frame item s) = index (tbl item)"
      by (simp add: setitem_def empty_frame_def Let_def si)
    show ?thesis
    proof (cases "index (tbl item) = []")
      case True
      then have "?V item t = None" for t
        by (simp add: field_value_def split: option.splits)
      with rows items have "t \<notin> set (index (dropna F))" for t by auto
      then have "index (dropna F) = []" by (cases "index (dropna F)") auto
      with True items show ?thesis by (simp add: first_index_def)
    next
      case False
      have "\<forall>k < length rest. \<exists>s.
             item_column provider (now (Suc k)) start_date end_date frequency f (rest ! k) = Inr s
             \<and> (\<forall>t. ?V (rest ! k) t = (if t \<in> set (cindex s) then cvalues s t else None))"
      proof (intro allI impI)
        fix k assume "k < length rest"
        then have "Suc k < length items" by (simp add: items)
        from col [OF this] show "\<exists>s.
             item_column provider (now (Suc k)) start_date end_date frequency f (rest ! k) = Inr s
             \<and> (\<forall>t. ?V (rest ! k) t = (if t \<in> set (cindex s) then cvalues s t else None))"
          by (simp add: items) metis
      qed
      moreover have "fan_out_invariant ?V (setitem empty_frame item s)"
      proof (rule fan_out_invariant_setitem [OF _ fan_out_invariant_empty])
        fix t
        show "?V item t = (if t \<in> set (cindex s) then cvalues s t else None)"
          by (rule sv [symmetric])
      qed
      ultimately have "\<exists>F'. fan_out provider (\<lambda>k. now (Suc k)) start_date end_date frequency f rest
            (setitem empty_frame item s) = Inr F'
          \<and> (index (setitem empty_frame item s) \<noteq> [] \<longrightarrow> index F' = index (setitem empty_frame item s))"
        using fan_out_total [of rest provider "\<lambda>k. now (Suc k)" start_date end_date frequency f ?V
            "setitem empty_frame item s"]
        by blast
      with rest first False have "index F = index (tbl item)" by simp
      then have "index (dropna F) =
          filter (\<lambda>t. list_all (\<lambda>(n, c). c t \<noteq> None) (columns F)) (index (tbl item))"
        by (simp add: dropna_def)
      also have "\<dots> = filter (\<lambda>t. \<forall>item \<in> set items. ?V item t \<noteq> None) (index (tbl item))"
        using full \<open>index F = index (tbl item)\<close> by (intro filter_cong) simp_all
      finally show ?thesis by (simp add: items first_index_def)
    qed
  qed
  have "get_pricing provider now (Tickers items) start_date end_date frequency (Some f) = Inr (dropna F)"
    by (simp add: get_pricing_def tr run)
  with names order rows cells listed show ?thesis
    by (auto simp: dropna_simps(1))
qed

lemma field_value_bars:
  "field_value (bars ps) ''price'' t = (case map_of ps t of None \<Rightarrow> None | Some v \<Rightarrow> v)"
proof (cases "map_of ps t")
  case None
  then show ?thesis
    by (simp add: field_value_def field_source_def bars_close)
next
  case (Some a)
  then have "(t, a) \<in> set ps" by (rule map_of_SomeD)
  then have "t \<in> fst ` set ps" by force
  with Some show ?thesis
    by (simp add: field_value_def field_source_def bars_close bars_labels)
qed

theorem get_pricing_several_symbols_witness:
  "''price'' \<in> set normalized_labels
   \<and> (FieldStr ''price'' = FieldStr ''price'' \<or> FieldStr ''price'' = FieldList [''price''])
   \<and> [''A'', ''B''] \<noteq> []
   \<and> sample_provider (Ticker ''A'') ''2020-01-01'' (default_end (sample_clock 0) None) (yahoo_interval ''daily'')
        = Inr (sample_table ''A'')
   \<and> sample_provider (Ticker ''B'') ''2020-01-01'' (default_end (sample_clock 1) None) (yahoo_interval ''daily'')
        = Inr (sample_table ''B'')
   \<and> column_names (sample_table ''A'') = native_labels
   \<and> column_names (sample_table ''B'') = native_labels
   \<and> (\<exists>df. get_pricing sample_provider sample_clock (Tickers [''A'', ''B'']) ''2020-01-01'' None ''daily''
              (Some (FieldStr ''price'')) = Inr df
         \<and> column_names df = [''A'', ''B'']
         \<and> index df = [2, 4]
         \<and> cell df ''A'' 2 = Some 11 \<and> cell df ''B'' 2 = Some 20
         \<and> cell df ''A'' 4 = Some 13 \<and> cell df ''B'' 4 = Some 22)"
proof -
  let ?V = "\<lambda>item. field_value (sample_table item) ''price''"
  have ta: "sample_table ''A'' = bars [(1, Some 10), (2, Some 11), (3, None), (4, Some 13)]"
    and tb: "sample_table ''B'' = bars [(2, Some 20), (3, Some 21), (4, Some 22), (5, Some 23)]"
    by (simp_all add: sample_table_def bars_A_def bars_B_def)
  have va: "?V ''A'' t = (case map_of [(1, Some 10), (2, Some 11), (3, None), (4, Some 13)] t of
                None \<Rightarrow> None | Some v \<Rightarrow> v)" for t
    unfolding ta by (rule field_value_bars)
  have vb: "?V ''B'' t = (case map_of [(2, Some 20), (3, Some 21), (4, Some 22), (5, Some 23)] t of
                None \<Rightarrow> None | Some v \<Rightarrow> v)" for t
    unfolding tb by (rule field_value_bars)
  have h1: "''price'' \<in> set normalized_labels" by (simp add: normalized_labels_def)
  have h2: "FieldStr ''price'' = FieldStr ''price'' \<or> FieldStr ''price'' = FieldList [''price'']"
    by simp
  have h3: "[''A'', ''B''] \<noteq> []" by simp
  have fi: "first_index sample_table [''A'', ''B''] = [1, 2, 3, 4]"
    by (simp add: first_index_def ta bars_labels)
  have pa: "sample_provider (Ticker ''A'') ''2020-01-01'' (default_end (sample_clock 0) None)
      (yahoo_interval ''daily'') = Inr (sample_table ''A'')"
    and pb: "sample_provider (Ticker ''B'') ''2020-01-01'' (default_end (sample_clock 1) None)
      (yahoo_interval ''daily'') = Inr (sample_table ''B'')"
    by (simp_all add: sample_A sample_table_def)
  have na: "column_names (sample_table ''A'') = native_labels"
    and nb: "column_names (sample_table ''B'') = native_labels"
    by (simp_all add: ta tb bars_labels)
  from pa pb na nb have h4: "\<forall>k < length [''A'', ''B''].
      sample_provider (Ticker ([''A'', ''B''] ! k)) ''2020-01-01'' (default_end (sample_clock k) None)
          (yahoo_interval ''daily'') = Inr (sample_table ([''A'', ''B''] ! k))
      \<and> column_names (sample_table ([''A'', ''B''] ! k)) = native_labels"
    by (simp add: less_Suc_eq)
  have ix: "index (sample_table ''A'') = [1, 2, 3, 4]"
    by (simp add: ta bars_labels)
  from get_pricing_several_symbols [where provider = sample_provider and now = sample_clock
      and tbl = sample_table and items = "[''A'', ''B'']" and name = "''price''"
      and f = "FieldStr ''price''" and start_date = "''2020-01-01''" and end_date = None
      and frequency = "''daily''", OF h1 h2 h4]
  obtain df where
    df: "get_pricing sample_provider sample_clock (Tickers [''A'', ''B'']) ''2020-01-01'' None ''daily''
              (Some (FieldStr ''price'')) = Inr df"
    and names: "distinct [''A'', ''B''] \<longrightarrow> column_names df = [''A'', ''B'']"
    and rows: "index df = filter (\<lambda>t. \<forall>item \<in> set [''A'', ''B'']. ?V item t \<noteq> None)
                            (first_index sample_table [''A'', ''B''])"
    and cells: "\<forall>item \<in> set [''A'', ''B'']. \<forall>t \<in> set (index df). cell df item t = ?V item t"
    by blast
  from names have n: "column_names df = [''A'', ''B'']" by simp
  from rows have r: "index df = [2, 4]"
    by (simp add: fi va vb)
  with cells have "cell df ''A'' 2 = Some 11" "cell df ''B'' 2 = Some 20"
    "cell df ''A'' 4 = Some 13" "cell df ''B'' 4 = Some 22"
    by (simp_all add: va vb)
  with df n r h1 h3 pa pb na nb show ?thesis by simp
qed

end
